theory Spec2Isabelle
  imports Main "HOL-Library.Multiset"
begin

section \<open>Strings, exceptions and library functions\<close>

text \<open>
  A Python \<open>str\<close> is represented by the bytes of its UTF-8 encoding, so the ASCII
  characters the source inspects are single \<open>char\<close>s and every other character is a
  run of bytes from \<open>0x80\<close> upwards. The Chinese literals of the source are written out
  as these bytes. Only the reply line that the probe decodes is taken apart into its
  code points (section Decoded text). Exceptions are values: \<open>TimeoutError\<close> is
  \<open>asyncio.TimeoutError\<close>, and \<open>Exception m\<close> is any other exception below
  \<open>Exception\<close> whose \<open>str()\<close> is \<open>m\<close>.
\<close>

datatype exn = TimeoutError | Exception string

definition in_range :: "char \<Rightarrow> char \<Rightarrow> char \<Rightarrow> bool" where
  "in_range lo hi c = ((of_char lo :: nat) \<le> of_char c \<and> (of_char c :: nat) \<le> of_char hi)"

definition is_alpha :: "char \<Rightarrow> bool" where
  \<comment> \<open>the class \<open>[a-zA-Z]\<close>\<close>
  "is_alpha c = (in_range CHR ''a'' CHR ''z'' c \<or> in_range CHR ''A'' CHR ''Z'' c)"

definition is_digit :: "char \<Rightarrow> bool" where
  \<comment> \<open>the range \<open>0-9\<close>\<close>
  "is_digit c = in_range CHR ''0'' CHR ''9'' c"

definition local_char :: "char \<Rightarrow> bool" where
  \<comment> \<open>the class \<open>[a-zA-Z0-9._%+-]\<close>\<close>
  "local_char c = (is_alpha c \<or> is_digit c \<or> c \<in> set ''._%+-'')"

definition domain_char :: "char \<Rightarrow> bool" where
  \<comment> \<open>the class \<open>[a-zA-Z0-9.-]\<close>\<close>
  "domain_char c = (is_alpha c \<or> is_digit c \<or> c \<in> set ''.-'')"

definition newline :: char where
  "newline = CHR 0x0A"

definition crlf :: string where
  "crlf = [CHR 0x0D, CHR 0x0A]"

text \<open>\<open>str.split(sep)\<close> for a one-character separator: the pieces between the separators.\<close>

fun split_on :: "char \<Rightarrow> string \<Rightarrow> string list" where
  "split_on sep [] = [[]]"
| "split_on sep (c # cs) =
     (if c = sep then [] # split_on sep cs
      else (case split_on sep cs of
              [] \<Rightarrow> [[c]]
            | w # ws \<Rightarrow> (c # w) # ws))"

text \<open>Indexing a list raises \<open>IndexError\<close> out of range (only indices from 0 upwards occur).\<close>

definition index_error :: exn where
  "index_error = Exception ''list index out of range''"

definition py_index :: "'a list \<Rightarrow> nat \<Rightarrow> exn + 'a" where
  "py_index xs i = (if i < length xs then Inr (xs ! i) else Inl index_error)"

definition lower_char :: "char \<Rightarrow> char" where
  "lower_char c = (if in_range CHR ''A'' CHR ''Z'' c then char_of (of_char c + (32::nat)) else c)"

definition lower :: "string \<Rightarrow> string" where
  \<comment> \<open>\<open>str.lower()\<close> on the ASCII letters\<close>
  "lower s = map lower_char s"

definition rstrip_char :: "char \<Rightarrow> string \<Rightarrow> string" where
  \<comment> \<open>\<open>s.rstrip(c)\<close>: every trailing \<open>c\<close> is removed\<close>
  "rstrip_char c s = rev (dropWhile (\<lambda>x. x = c) (rev s))"

definition startswith :: "string \<Rightarrow> string \<Rightarrow> bool" where
  "startswith s p = (take (length p) s = p)"

section \<open>The regular expression of the address validator\<close>

text \<open>
  The fragment of \<open>re\<close> that the pattern uses: the anchors \<open>^\<close> and \<open>$\<close>, a literal
  character, and a character class repeated at least \<open>n\<close> times (\<open>+\<close> is \<open>{1,}\<close>).
  Without \<open>re.MULTILINE\<close>, \<open>^\<close> matches at the start of the string only and \<open>$\<close>
  matches at the end of the string and also just before a newline that ends the string.
  \<open>re.match\<close> returns a match object as soon as some way of matching exists, so the
  matcher tries every length of a repetition.
\<close>

datatype regex_item =
    Bol
  | Eol
  | Lit char
  | Rep "char \<Rightarrow> bool" nat

fun re_match_at :: "regex_item list \<Rightarrow> bool \<Rightarrow> string \<Rightarrow> bool" where
  "re_match_at [] at_start s = True"
| "re_match_at (Bol # r) at_start s = (at_start \<and> re_match_at r at_start s)"
| "re_match_at (Eol # r) at_start s = ((s = [] \<or> s = [newline]) \<and> re_match_at r at_start s)"
| "re_match_at (Lit c # r) at_start [] = False"
| "re_match_at (Lit c # r) at_start (x # xs) = (x = c \<and> re_match_at r False xs)"
| "re_match_at (Rep cls n # r) at_start [] = (n = 0 \<and> re_match_at r at_start [])"
| "re_match_at (Rep cls n # r) at_start (x # xs) =
     ((n = 0 \<and> re_match_at r at_start (x # xs)) \<or>
      (cls x \<and> re_match_at (Rep cls (n - 1) # r) False xs))"

definition pattern :: "regex_item list" where
  \<comment> \<open>\<open>^[a-zA-Z0-9._%+-]+@[a-zA-Z0-9.-]+\.[a-zA-Z]{2,}$\<close>\<close>
  "pattern = [Bol, Rep local_char 1, Lit CHR ''@'', Rep domain_char 1, Lit CHR ''.'',
              Rep is_alpha 2, Eol]"

definition is_valid_email_format :: "string \<Rightarrow> bool" where
  \<comment> \<open>\<open>re.match(pattern, email) is not None\<close>\<close>
  "is_valid_email_format addr = re_match_at pattern True addr"

section \<open>Decoded text\<close>

text \<open>
  \<open>bytes.decode()\<close> reads UTF-8 strictly: overlong forms, surrogates and values above
  \<open>0x10FFFF\<close> are errors. The decoded text is the list of its code points; \<open>None\<close> stands
  for \<open>UnicodeDecodeError\<close>. \<open>utf8_encode\<close> gives back the representation of a \<open>str\<close>
  used everywhere else.
\<close>

definition continuation :: "char \<Rightarrow> bool" where
  "continuation b = in_range (CHR 0x80) (CHR 0xBF) b"

definition second_lo :: "char \<Rightarrow> char" where
  \<comment> \<open>the least second byte after a lead byte\<close>
  "second_lo b0 = (if b0 = CHR 0xE0 then CHR 0xA0 else if b0 = CHR 0xF0 then CHR 0x90 else CHR 0x80)"

definition second_hi :: "char \<Rightarrow> char" where
  \<comment> \<open>the greatest second byte after a lead byte\<close>
  "second_hi b0 = (if b0 = CHR 0xED then CHR 0x9F else if b0 = CHR 0xF4 then CHR 0x8F else CHR 0xBF)"

fun utf8_decode :: "string \<Rightarrow> nat list option" where
  "utf8_decode [] = Some []"
| "utf8_decode (b0 # bs) =
     (if (of_char b0 :: nat) < 0x80 then
        map_option (Cons (of_char b0)) (utf8_decode bs)
      else if in_range (CHR 0xC2) (CHR 0xDF) b0 then
        (case bs of
           b1 # r \<Rightarrow>
             if continuation b1 then
               map_option (Cons ((of_char b0 - 0xC0) * 64 + (of_char b1 - 0x80))) (utf8_decode r)
             else None
         | _ \<Rightarrow> None)
      else if in_range (CHR 0xE0) (CHR 0xEF) b0 then
        (case bs of
           b1 # b2 # r \<Rightarrow>
             if in_range (second_lo b0) (second_hi b0) b1 \<and> continuation b2 then
               map_option (Cons ((of_char b0 - 0xE0) * 4096 + (of_char b1 - 0x80) * 64 +
                 (of_char b2 - 0x80))) (utf8_decode r)
             else None
         | _ \<Rightarrow> None)
      else if in_range (CHR 0xF0) (CHR 0xF4) b0 then
        (case bs of
           b1 # b2 # b3 # r \<Rightarrow>
             if in_range (second_lo b0) (second_hi b0) b1 \<and> continuation b2 \<and> continuation b3 then
               map_option (Cons ((of_char b0 - 0xF0) * 262144 + (of_char b1 - 0x80) * 4096 +
                 (of_char b2 - 0x80) * 64 + (of_char b3 - 0x80))) (utf8_decode r)
             else None
         | _ \<Rightarrow> None)
      else None)"

definition utf8_char :: "nat \<Rightarrow> string" where
  "utf8_char c =
     (if c < 0x80 then [char_of c]
      else if c < 0x800 then [char_of (0xC0 + c div 64), char_of (0x80 + c mod 64)]
      else if c < 0x10000 then
        [char_of (0xE0 + c div 4096), char_of (0x80 + (c div 64) mod 64), char_of (0x80 + c mod 64)]
      else
        [char_of (0xF0 + c div 262144), char_of (0x80 + (c div 4096) mod 64),
         char_of (0x80 + (c div 64) mod 64), char_of (0x80 + c mod 64)])"

definition utf8_encode :: "nat list \<Rightarrow> string" where
  "utf8_encode cps = concat (map utf8_char cps)"

definition in_span :: "nat \<Rightarrow> nat \<Rightarrow> nat \<Rightarrow> bool" where
  "in_span lo hi c = (lo \<le> c \<and> c \<le> hi)"

definition unicode_space :: "nat \<Rightarrow> bool" where
  \<comment> \<open>the code points for which \<open>str.isspace()\<close> holds\<close>
  "unicode_space c =
     (in_span 0x09 0x0D c \<or> in_span 0x1C 0x20 c \<or> c = 0x85 \<or> c = 0xA0 \<or> c = 0x1680 \<or>
      in_span 0x2000 0x200A c \<or> c = 0x2028 \<or> c = 0x2029 \<or> c = 0x202F \<or> c = 0x205F \<or>
      c = 0x3000)"

definition strip :: "nat list \<Rightarrow> nat list" where
  \<comment> \<open>\<open>str.strip()\<close>\<close>
  "strip s = rev (dropWhile unicode_space (rev (dropWhile unicode_space s)))"

section \<open>\<open>int()\<close> on a reply prefix\<close>

text \<open>
  \<open>int(s)\<close> in base 10: surrounding white space is skipped, one sign may come first, and
  the digits may be separated by single underscores. Anything else raises \<open>ValueError\<close>.
  A digit is an ASCII digit or any other character with a decimal digit value in the
  Unicode character database; that table is not part of the repository, so it is the
  parameter \<open>todec\<close>, asked for code points from 128 upwards. White space is tab to
  carriage return, the space, and the white space from 128 upwards (the ASCII
  separators \<open>0x1C\<close> to \<open>0x1F\<close>, which \<open>strip()\<close> removes, are not skipped by \<open>int\<close>).
\<close>

definition int_space :: "nat \<Rightarrow> bool" where
  "int_space c = (in_span 0x09 0x0D c \<or> c = 0x20 \<or> (128 \<le> c \<and> unicode_space c))"

definition digit_value :: "(nat \<Rightarrow> nat option) \<Rightarrow> nat \<Rightarrow> nat option" where
  "digit_value todec c =
     (if in_span 0x30 0x39 c then Some (c - 0x30)
      else if c < 128 then None
      else (case todec c of
              None \<Rightarrow> None
            | Some d \<Rightarrow> if d < 10 then Some d else None))"

definition underscore :: nat where
  "underscore = 0x5F"

fun int_digits :: "(nat \<Rightarrow> nat option) \<Rightarrow> nat list \<Rightarrow> bool" where
  "int_digits todec [] = False"
| "int_digits todec [c] = (digit_value todec c \<noteq> None)"
| "int_digits todec (c # d # cs) =
     (digit_value todec c \<noteq> None \<and>
      (if d = underscore then int_digits todec cs else int_digits todec (d # cs)))"

fun int_value :: "(nat \<Rightarrow> nat option) \<Rightarrow> int \<Rightarrow> nat list \<Rightarrow> int" where
  "int_value todec acc [] = acc"
| "int_value todec acc (c # cs) =
     (case digit_value todec c of
        None \<Rightarrow> int_value todec acc cs
      | Some d \<Rightarrow> int_value todec (10 * acc + int d) cs)"

definition value_error :: exn where
  "value_error = Exception ''invalid literal for int() with base 10''"

definition py_int :: "(nat \<Rightarrow> nat option) \<Rightarrow> nat list \<Rightarrow> exn + int" where
  "py_int todec s =
     (case rev (dropWhile int_space (rev (dropWhile int_space s))) of
        [] \<Rightarrow> Inl value_error
      | c # cs \<Rightarrow>
          (if c = 0x2D then
             (if int_digits todec cs then Inr (- int_value todec 0 cs) else Inl value_error)
           else if c = 0x2B then
             (if int_digits todec cs then Inr (int_value todec 0 cs) else Inl value_error)
           else
             (if int_digits todec (c # cs) then Inr (int_value todec 0 (c # cs))
              else Inl value_error)))"

section \<open>Data model\<close>

text \<open>
  Points in time are integers: the microseconds (the resolution of \<open>datetime\<close>) since
  \<open>datetime.min\<close>, the start of year 1, up to \<open>datetime.max\<close>, the end of year 9999.
  Arithmetic that leaves this range raises \<open>OverflowError\<close>. Durations are integers of
  microseconds. The store keeps a timestamp as its ISO-8601 text and the query compares
  these texts; on the texts of \<open>datetime.isoformat()\<close> that order is the order of the
  points in time, so the model compares the integers. The JSON text of the MX list is
  modelled by the list it encodes.
\<close>

definition datetime_min :: int where
  "datetime_min = 0"

definition datetime_max :: int where
  "datetime_max = 315537897599999999"

record VerificationResult =
  email :: string
  is_valid :: bool
  status_code :: "int option"
  server_response :: string
  mx_records :: "string list"
  verification_time :: int
  timestamp :: int
  error_message :: "string option"
  cached :: bool

text \<open>A row of the table \<open>verifications\<close>; the column \<open>email\<close> is the primary key.\<close>

record db_row =
  col_email :: string
  col_is_valid :: bool
  col_status_code :: "int option"
  col_server_response :: string
  col_mx_records :: "string list"
  col_verification_time :: int
  col_timestamp :: int
  col_error_message :: "string option"

record sender =
  sender_email :: string
  sender_helo :: string

record mx_rdata =
  preference :: nat
  exchange :: string

text \<open>
  What the mail server at a host does in one session. The lines it sends arrive in
  order: its greeting once the connection is open, and its answer to a command once
  the command has been written and drained. An answer may have several lines, as the
  answer to \<open>EHLO\<close> of a server with extensions has. \<open>on_silence\<close> is what a
  \<open>readline\<close> gives when the server has sent nothing more: \<open>TimeoutError\<close> from
  \<open>wait_for\<close>, another exception, or the empty line of a closed connection.
\<close>

record smtp_peer =
  open_connection :: "exn + unit"
  greeting :: "string list"
  ehlo_drain :: "exn + unit"
  ehlo_reply :: "string list"
  mail_drain :: "exn + unit"
  mail_reply :: "string list"
  rcpt_drain :: "exn + unit"
  rcpt_reply :: "string list"
  quit_drain :: "exn + unit"
  wait_closed :: "exn + unit"
  on_silence :: "exn + string"

text \<open>
  Everything outside the verifier that one call of \<open>verify_email\<close> reads:
  \<open>now_lookup\<close> is \<open>datetime.now()\<close> in \<open>get_cached_result\<close>, \<open>now_created\<close> is
  \<open>datetime.now()\<close> in \<open>__post_init__\<close>, and \<open>elapsed\<close> is \<open>time.time() - start_time\<close>
  (a float in the source, here a value that is only passed on). \<open>read_fault\<close> and
  \<open>write_fault\<close> say whether \<open>sqlite3\<close> raises in the query and in the insert.
  \<open>resolve\<close> is \<open>dns.resolver.resolve(domain, 'MX')\<close>: the records of the answer, each
  with the text of its exchange name, or the exception raised. \<open>peer\<close> is the mail
  server behind a host name. Two parts of the Python library are parameters as well:
  \<open>to_decimal\<close> is the decimal digit value of a code point in the Unicode character
  database, and \<open>codec_error\<close> is the text of the \<open>UnicodeDecodeError\<close> that
  \<open>bytes.decode()\<close> raises on a line.
\<close>

record world =
  now_lookup :: int
  now_created :: int
  elapsed :: int
  read_fault :: bool
  write_fault :: bool
  resolve :: "string \<Rightarrow> exn + mx_rdata list"
  peer :: "string \<Rightarrow> smtp_peer"
  to_decimal :: "nat \<Rightarrow> nat option"
  codec_error :: "string \<Rightarrow> string"

text \<open>
  The \<open>EmailVerifier\<close> object: the table behind its connection, its configuration and
  the cursor of the sender pool. The events of a call list what it did outside of
  itself, in order; \<open>CacheRead\<close> and \<open>CacheWrite\<close> are the calls of
  \<open>get_cached_result\<close> and \<open>cache_result\<close>.
\<close>

record verifier =
  table :: "db_row list"
  cache_duration :: int
  smtp_timeout :: int
  max_concurrent :: int
  sender_configs :: "sender list"
  current_sender :: nat

datatype event =
    CacheRead string
  | CacheWrite db_row
  | DnsQuery string
  | Connect string nat
  | Opened
  | Send string
  | Close

definition hour :: int where
  "hour = 3600 * 1000000"

definition EmailVerifier_init :: "db_row list \<Rightarrow> int \<Rightarrow> int \<Rightarrow> int \<Rightarrow> verifier" where
  \<comment> \<open>\<open>__init__\<close>: the rows already in the database file, and the three environment values\<close>
  "EmailVerifier_init rows cache_hours timeout_s concurrent =
     \<lparr> table = rows,
       cache_duration = cache_hours * hour,
       smtp_timeout = timeout_s,
       max_concurrent = concurrent,
       sender_configs =
         [\<lparr> sender_email = ''validator@emailcheck.tech'',
             sender_helo = ''mail-validator-1.emailcheck.tech'' \<rparr>,
          \<lparr> sender_email = ''checker@emailcheck.tech'',
             sender_helo = ''mail-validator-2.emailcheck.tech'' \<rparr>,
          \<lparr> sender_email = ''verify@emailcheck.tech'',
             sender_helo = ''mail-validator-3.emailcheck.tech'' \<rparr>],
       current_sender = 0 \<rparr>"

section \<open>MX resolver\<close>

text \<open>\<open>sorted\<close> is stable, as \<open>sort_key\<close> is.\<close>

definition get_mx_records :: "world \<Rightarrow> string \<Rightarrow> string list" where
  "get_mx_records w domain =
     (case resolve w domain of
        Inl e \<Rightarrow> []
      | Inr answer \<Rightarrow>
          map (\<lambda>mx. rstrip_char CHR ''.'' (exchange mx)) (sort_key preference answer))"

section \<open>Verification cache\<close>

definition result_of_row :: "db_row \<Rightarrow> VerificationResult" where
  "result_of_row row =
     \<lparr> email = col_email row,
       is_valid = col_is_valid row,
       status_code = col_status_code row,
       server_response = col_server_response row,
       mx_records = col_mx_records row,
       verification_time = col_verification_time row,
       timestamp = col_timestamp row,
       error_message = col_error_message row,
       cached = True \<rparr>"

definition row_of_result :: "VerificationResult \<Rightarrow> db_row" where
  "row_of_result r =
     \<lparr> col_email = email r,
       col_is_valid = is_valid r,
       col_status_code = status_code r,
       col_server_response = server_response r,
       col_mx_records = mx_records r,
       col_verification_time = verification_time r,
       col_timestamp = timestamp r,
       col_error_message = error_message r \<rparr>"

text \<open>
  The whole body of \<open>get_cached_result\<close> is inside \<open>try\<close>: an \<open>OverflowError\<close> of
  \<open>datetime.now() - self.cache_duration\<close> and an error of the query both end in the
  handler, which returns \<open>None\<close>.
\<close>

definition cutoff_overflows :: "world \<Rightarrow> verifier \<Rightarrow> bool" where
  "cutoff_overflows w st =
     (now_lookup w - cache_duration st < datetime_min \<or>
      datetime_max < now_lookup w - cache_duration st)"

definition get_cached_result :: "world \<Rightarrow> verifier \<Rightarrow> string \<Rightarrow> VerificationResult option" where
  "get_cached_result w st addr =
     (if cutoff_overflows w st then None
      else if read_fault w then None
      else
        (let cutoff_time = now_lookup w - cache_duration st in
         case find (\<lambda>row. col_email row = addr \<and> col_timestamp row > cutoff_time) (table st) of
           None \<Rightarrow> None
         | Some row \<Rightarrow> Some (result_of_row row)))"

definition insert_or_replace :: "db_row \<Rightarrow> db_row list \<Rightarrow> db_row list" where
  \<comment> \<open>\<open>INSERT OR REPLACE\<close>: the rows with the new row's key are deleted, then it is inserted\<close>
  "insert_or_replace row rows = filter (\<lambda>r. col_email r \<noteq> col_email row) rows @ [row]"

definition cache_result :: "world \<Rightarrow> verifier \<Rightarrow> VerificationResult \<Rightarrow> verifier" where
  "cache_result w st r =
     (if write_fault w then st
      else st\<lparr> table := insert_or_replace (row_of_result r) (table st) \<rparr>)"

section \<open>Sender identity pool\<close>

definition get_next_sender :: "verifier \<Rightarrow> exn + (sender \<times> verifier)" where
  "get_next_sender st =
     (case py_index (sender_configs st) (current_sender st) of
        Inl e \<Rightarrow> Inl e
      | Inr s \<Rightarrow>
          Inr (s, st\<lparr> current_sender := (current_sender st + 1) mod length (sender_configs st) \<rparr>))"

text \<open>\<open>n\<close> calls in a row: the identities returned, in order, and the pool afterwards.\<close>

fun next_senders :: "nat \<Rightarrow> verifier \<Rightarrow> exn + (sender list \<times> verifier)" where
  "next_senders 0 st = Inr ([], st)"
| "next_senders (Suc n) st =
     (case get_next_sender st of
        Inl e \<Rightarrow> Inl e
      | Inr (s, st') \<Rightarrow>
          (case next_senders n st' of
             Inl e \<Rightarrow> Inl e
           | Inr (ss, st'') \<Rightarrow> Inr (s # ss, st'')))"

section \<open>SMTP probe\<close>

text \<open>
  The probe is a sequence of awaited steps, each of which returns or raises. A step
  takes the connection so far (the lines that have arrived and are not yet read, and
  the events) and returns its outcome with the connection afterwards; a raise skips
  the steps after it until a handler takes it. \<open>Connect\<close> is the call of
  \<open>open_connection\<close>, \<open>Opened\<close> its return with a reader and a writer, \<open>Send\<close> a
  \<open>writer.write\<close> and \<open>Close\<close> the call of \<open>writer.close()\<close>. \<open>deliver\<close> is the server's
  part: its lines arrive behind those still unread. \<open>readline\<close> takes the first
  unread line, whichever command it answers.
\<close>

record conn =
  inbox :: "string list"
  events :: "event list"

type_synonym 'a io = "conn \<Rightarrow> (exn + 'a) \<times> conn"

definition io_return :: "'a \<Rightarrow> 'a io" where
  "io_return x = (\<lambda>c. (Inr x, c))"

definition io_raise :: "exn \<Rightarrow> 'a io" where
  "io_raise e = (\<lambda>c. (Inl e, c))"

definition io_bind :: "'a io \<Rightarrow> ('a \<Rightarrow> 'b io) \<Rightarrow> 'b io" where
  "io_bind m f = (\<lambda>c. case m c of (Inl e, c') \<Rightarrow> (Inl e, c') | (Inr x, c') \<Rightarrow> f x c')"

definition io_try :: "'a io \<Rightarrow> (exn \<Rightarrow> 'a io) \<Rightarrow> 'a io" where
  "io_try m handler = (\<lambda>c. case m c of (Inl e, c') \<Rightarrow> handler e c' | (Inr x, c') \<Rightarrow> (Inr x, c'))"

definition emit :: "event \<Rightarrow> unit io" where
  "emit ev = (\<lambda>c. (Inr (), c\<lparr> events := events c @ [ev] \<rparr>))"

definition await :: "exn + 'a \<Rightarrow> 'a io" where
  "await outcome = (\<lambda>c. (outcome, c))"

definition deliver :: "string list \<Rightarrow> unit io" where
  "deliver lines = (\<lambda>c. (Inr (), c\<lparr> inbox := inbox c @ lines \<rparr>))"

definition readline :: "smtp_peer \<Rightarrow> string io" where
  "readline p =
     (\<lambda>c. case inbox c of
             [] \<Rightarrow> (on_silence p, c)
           | line # rest \<Rightarrow> (Inr line, c\<lparr> inbox := rest \<rparr>))"

definition decode :: "world \<Rightarrow> string \<Rightarrow> exn + nat list" where
  \<comment> \<open>\<open>rcpt_response.decode()\<close>\<close>
  "decode w line =
     (case utf8_decode line of
        None \<Rightarrow> Inl (Exception (codec_error w line))
      | Some text \<Rightarrow> Inr text)"

definition msg_smtp_failed :: string where
  \<comment> \<open>the literal of \<open>raise Exception(...)\<close> after a greeting that is not \<open>220\<close>\<close>
  "msg_smtp_failed = [CHR 0x53, CHR 0x4D, CHR 0x54, CHR 0x50, CHR 0xE8, CHR 0xBF, CHR 0x9E,
     CHR 0xE6, CHR 0x8E, CHR 0xA5, CHR 0xE5, CHR 0xA4, CHR 0xB1, CHR 0xE8, CHR 0xB4, CHR 0xA5]"

definition msg_timeout :: string where
  \<comment> \<open>the literal returned on \<open>asyncio.TimeoutError\<close>\<close>
  "msg_timeout = [CHR 0xE8, CHR 0xBF, CHR 0x9E, CHR 0xE6, CHR 0x8E, CHR 0xA5, CHR 0xE8, CHR 0xB6,
     CHR 0x85, CHR 0xE6, CHR 0x97, CHR 0xB6]"

definition parse_status :: "world \<Rightarrow> nat list \<Rightarrow> int" where
  \<comment> \<open>\<open>try: status_code = int(rcpt_str[:3])\<close>, \<open>except: status_code = 500\<close>\<close>
  "parse_status w rcpt_str =
     (case py_int (to_decimal w) (take 3 rcpt_str) of Inr n \<Rightarrow> n | Inl e \<Rightarrow> 500)"

text \<open>The body of the \<open>try\<close> block of \<open>smtp_verify\<close>.\<close>

definition smtp_session ::
    "world \<Rightarrow> smtp_peer \<Rightarrow> sender \<Rightarrow> string \<Rightarrow> string \<Rightarrow> (bool \<times> int \<times> string) io" where
  "smtp_session w p sender addr mx_host =
     io_bind (emit (Connect mx_host 25)) (\<lambda>_.
     io_bind (await (open_connection p)) (\<lambda>_.
     io_bind (emit Opened) (\<lambda>_.
     io_bind (deliver (greeting p)) (\<lambda>_.
     io_bind (readline p) (\<lambda>welcome.
     io_bind (if \<not> startswith welcome ''220'' then io_raise (Exception msg_smtp_failed)
              else io_return ()) (\<lambda>_.
     io_bind (emit (Send (''EHLO '' @ sender_helo sender @ crlf))) (\<lambda>_.
     io_bind (await (ehlo_drain p)) (\<lambda>_.
     io_bind (deliver (ehlo_reply p)) (\<lambda>_.
     io_bind (readline p) (\<lambda>_.
     io_bind (emit (Send (''MAIL FROM:<'' @ sender_email sender @ ''>'' @ crlf))) (\<lambda>_.
     io_bind (await (mail_drain p)) (\<lambda>_.
     io_bind (deliver (mail_reply p)) (\<lambda>_.
     io_bind (readline p) (\<lambda>_.
     io_bind (emit (Send (''RCPT TO:<'' @ addr @ ''>'' @ crlf))) (\<lambda>_.
     io_bind (await (rcpt_drain p)) (\<lambda>_.
     io_bind (deliver (rcpt_reply p)) (\<lambda>_.
     io_bind (readline p) (\<lambda>rcpt_response.
     io_bind (await (decode w rcpt_response)) (\<lambda>decoded.
     io_bind (emit (Send (''QUIT'' @ crlf))) (\<lambda>_.
     io_bind (await (quit_drain p)) (\<lambda>_.
     io_bind (emit Close) (\<lambda>_.
     io_bind (io_try (await (wait_closed p)) (\<lambda>e. io_return ())) (\<lambda>_.
       (let rcpt_str = strip decoded;
            status = parse_status w rcpt_str;
            valid = (status \<in> {250, 251})
        in io_return (valid, status, utf8_encode rcpt_str)))))))))))))))))))))))))"

definition smtp_handler :: "exn \<Rightarrow> (bool \<times> int \<times> string) io" where
  "smtp_handler e =
     (case e of
        TimeoutError \<Rightarrow> io_return (False, 0, msg_timeout)
      | Exception m \<Rightarrow> io_return (False, 0, m))"

definition smtp_verify ::
    "world \<Rightarrow> verifier \<Rightarrow> string \<Rightarrow> string \<Rightarrow> (exn + bool \<times> int \<times> string) \<times> verifier \<times> event list" where
  "smtp_verify w st addr mx_host =
     (case get_next_sender st of
        Inl e \<Rightarrow> (Inl e, st, [])
      | Inr (sender, st') \<Rightarrow>
          (case io_try (smtp_session w (peer w mx_host) sender addr mx_host) smtp_handler
                  \<lparr> inbox = [], events = [] \<rparr> of
             (r, c) \<Rightarrow> (r, st', events c)))"

section \<open>Verification orchestrator\<close>

definition msg_bad_format :: string where
  \<comment> \<open>the literal of \<open>error_message\<close> after a failed format check\<close>
  "msg_bad_format = [CHR 0xE9, CHR 0x82, CHR 0xAE, CHR 0xE7, CHR 0xAE, CHR 0xB1, CHR 0xE6,
     CHR 0xA0, CHR 0xBC, CHR 0xE5, CHR 0xBC, CHR 0x8F, CHR 0xE6, CHR 0x97, CHR 0xA0, CHR 0xE6,
     CHR 0x95, CHR 0x88]"

definition msg_no_mx_response :: string where
  \<comment> \<open>the literal of \<open>server_response\<close> when the domain has no MX record\<close>
  "msg_no_mx_response = [CHR 0xE6, CHR 0x9C, CHR 0xAA, CHR 0xE6, CHR 0x89, CHR 0xBE, CHR 0xE5,
     CHR 0x88, CHR 0xB0, CHR 0x4D, CHR 0x58, CHR 0xE8, CHR 0xAE, CHR 0xB0, CHR 0xE5, CHR 0xBD,
     CHR 0x95]"

definition msg_no_mx :: string where
  \<comment> \<open>the literal of \<open>error_message\<close> when the domain has no MX record\<close>
  "msg_no_mx = [CHR 0xE5, CHR 0x9F, CHR 0x9F, CHR 0xE5, CHR 0x90, CHR 0x8D, CHR 0xE6, CHR 0xB2,
     CHR 0xA1, CHR 0xE6, CHR 0x9C, CHR 0x89, CHR 0x4D, CHR 0x58, CHR 0xE8, CHR 0xAE, CHR 0xB0,
     CHR 0xE5, CHR 0xBD, CHR 0x95]"

definition exn_str :: "exn \<Rightarrow> string" where
  "exn_str e = (case e of TimeoutError \<Rightarrow> [] | Exception m \<Rightarrow> m)"

definition new_result :: "world \<Rightarrow> string \<Rightarrow> VerificationResult" where
  \<comment> \<open>the dataclass defaults, with \<open>__post_init__\<close> and the elapsed time\<close>
  "new_result w addr =
     \<lparr> email = addr, is_valid = False, status_code = None, server_response = [],
       mx_records = [], verification_time = elapsed w, timestamp = now_created w,
       error_message = None, cached = False \<rparr>"

definition verify_email ::
    "world \<Rightarrow> verifier \<Rightarrow> string \<Rightarrow> (exn + VerificationResult) \<times> verifier \<times> event list" where
  "verify_email w st addr =
     (case get_cached_result w st addr of
        Some cached_result \<Rightarrow> (Inr cached_result, st, [CacheRead addr])
      | None \<Rightarrow>
          if \<not> is_valid_email_format addr then
            (let result = (new_result w addr)\<lparr> error_message := Some msg_bad_format \<rparr>
             in (Inr result, cache_result w st result,
                 [CacheRead addr, CacheWrite (row_of_result result)]))
          else
            (case py_index (split_on CHR ''@'' addr) 1 of
               Inl e \<Rightarrow> (Inl e, st, [CacheRead addr])
             | Inr d \<Rightarrow>
                 (let domain = lower d;
                      mxs = get_mx_records w domain
                  in case mxs of
                       [] \<Rightarrow>
                         (let result = (new_result w addr)
                                \<lparr> server_response := msg_no_mx_response,
                                  error_message := Some msg_no_mx \<rparr>
                          in (Inr result, cache_result w st result,
                              [CacheRead addr, DnsQuery domain, CacheWrite (row_of_result result)]))
                     | primary_mx # others \<Rightarrow>
                         (case smtp_verify w st addr primary_mx of
                            (outcome, st', t) \<Rightarrow>
                              (let result =
                                 (case outcome of
                                    Inr (valid, code, response) \<Rightarrow>
                                      (new_result w addr)
                                        \<lparr> is_valid := valid, status_code := Some code,
                                          server_response := response, mx_records := mxs \<rparr>
                                  | Inl e \<Rightarrow>
                                      (new_result w addr)
                                        \<lparr> mx_records := mxs, error_message := Some (exn_str e) \<rparr>)
                               in (Inr result, cache_result w st' result,
                                   [CacheRead addr, DnsQuery domain] @ t @
                                   [CacheWrite (row_of_result result)]))))))"

section \<open>Example inputs\<close>

definition peer_replying :: "string \<Rightarrow> smtp_peer" where
  \<comment> \<open>a server that answers every command with one line, the given one after \<open>RCPT TO\<close>\<close>
  "peer_replying reply =
     \<lparr> open_connection = Inr (),
       greeting = [''220 mx1.example.com ESMTP'' @ crlf],
       ehlo_drain = Inr (),
       ehlo_reply = [''250 mx1.example.com'' @ crlf],
       mail_drain = Inr (),
       mail_reply = [''250 2.1.0 Ok'' @ crlf],
       rcpt_drain = Inr (),
       rcpt_reply = [reply],
       quit_drain = Inr (),
       wait_closed = Inr (),
       on_silence = Inl TimeoutError \<rparr>"

definition stalling_peer :: smtp_peer where
  \<comment> \<open>a server that greets and then never answers \<open>EHLO\<close>\<close>
  "stalling_peer = (peer_replying [])\<lparr> ehlo_reply := [] \<rparr>"

definition multiline_peer :: smtp_peer where
  \<comment> \<open>a server that lists its extensions after \<open>EHLO\<close> and refuses the recipient\<close>
  "multiline_peer =
     (peer_replying (''550 5.1.1 Unknown user'' @ crlf))
       \<lparr> ehlo_reply := [''250-mx1.example.com'' @ crlf, ''250-SIZE 10240000'' @ crlf,
                        ''250 HELP'' @ crlf] \<rparr>"

definition example_dns :: "string \<Rightarrow> exn + mx_rdata list" where
  "example_dns domain =
     (if domain = ''example.com'' then
        Inr [\<lparr> preference = 20, exchange = ''mx2.example.com.'' \<rparr>,
             \<lparr> preference = 10, exchange = ''mx1.example.com.'' \<rparr>]
      else Inl (Exception ''The DNS query name does not exist''))"

definition example_decimal :: "nat \<Rightarrow> nat option" where
  \<comment> \<open>two rows of the table of decimal digits: the Arabic-Indic and the full-width digits\<close>
  "example_decimal c =
     (if in_span 0x660 0x669 c then Some (c - 0x660)
      else if in_span 0xFF10 0xFF19 c then Some (c - 0xFF10)
      else None)"

definition example_codec_error :: "string \<Rightarrow> string" where
  \<comment> \<open>a stand-in for the decoder's message\<close>
  "example_codec_error line = ''utf-8 codec can not decode the line''"

definition example_world :: "smtp_peer \<Rightarrow> world" where
  \<comment> \<open>the first hour of the year 2024\<close>
  "example_world p =
     \<lparr> now_lookup = 17733240 * hour, now_created = 17733240 * hour, elapsed = 5,
       read_fault = False, write_fault = False,
       resolve = example_dns, peer = (\<lambda>host. p),
       to_decimal = example_decimal, codec_error = example_codec_error \<rparr>"

definition example_verifier :: verifier where
  "example_verifier = EmailVerifier_init [] 24 15 2"

section \<open>The address shape in the words of the specification\<close>

text \<open>
  The specification describes a well-formed address as \<open>local-part@domain\<close>, the local
  part one or more characters out of letters, digits and \<open>._%+-\<close>, the domain one or
  more dot-separated labels of letters, digits and hyphens, the last label at least two
  letters. This definition follows these words (a label has at least one character); it
  is compared with \<open>is_valid_email_format\<close> below.
\<close>

definition label_char :: "char \<Rightarrow> bool" where
  "label_char c = (is_alpha c \<or> is_digit c \<or> c = CHR ''-'')"

definition spec_domain :: "string \<Rightarrow> bool" where
  "spec_domain d =
     (let labels = split_on CHR ''.'' d in
        list_all (\<lambda>l. l \<noteq> [] \<and> list_all label_char l) labels \<and>
        2 \<le> length (last labels) \<and> list_all is_alpha (last labels))"

definition spec_is_well_formed :: "string \<Rightarrow> bool" where
  "spec_is_well_formed addr =
     (case split_on CHR ''@'' addr of
        [local_part, domain] \<Rightarrow>
          local_part \<noteq> [] \<and> list_all local_char local_part \<and> spec_domain domain
      | _ \<Rightarrow> False)"

section \<open>Reading the events of a call\<close>

fun is_cache_write :: "event \<Rightarrow> bool" where
  "is_cache_write (CacheWrite row) = True"
| "is_cache_write ev = False"

fun network_event :: "event \<Rightarrow> bool" where
  "network_event (Connect host port) = True"
| "network_event Opened = True"
| "network_event (Send line) = True"
| "network_event Close = True"
| "network_event ev = False"

text \<open>A step that only adds network events to the events so far.\<close>

definition only_network :: "'a io \<Rightarrow> bool" where
  "only_network m =
     (\<forall>c. \<exists>evs. events (snd (m c)) = events c @ evs \<and> list_all network_event evs)"

definition example_row :: db_row where
  \<comment> \<open>an outcome stored ten hours before \<open>now_lookup\<close> of the example world\<close>
  "example_row =
     \<lparr> col_email = ''user@example.com'', col_is_valid = True, col_status_code = Some 250,
       col_server_response = ''250 2.1.5 Recipient OK'',
       col_mx_records = [''mx1.example.com'', ''mx2.example.com''],
       col_verification_time = 5, col_timestamp = 17733230 * hour,
       col_error_message = None \<rparr>"

section \<open>Properties\<close>

subsection \<open>Sender rotation\<close>

lemma get_next_sender_in_range:
  assumes "current_sender st < length (sender_configs st)"
  shows "get_next_sender st =
    Inr (sender_configs st ! current_sender st,
         st\<lparr> current_sender := (current_sender st + 1) mod length (sender_configs st) \<rparr>)"
  using assms by (simp add: get_next_sender_def py_index_def)

lemma next_senders_from:
  assumes "current_sender st < length (sender_configs st)"
  shows "next_senders k st =
    Inr (map (\<lambda>i. sender_configs st ! ((current_sender st + i) mod length (sender_configs st))) [0..<k],
         st\<lparr> current_sender := (current_sender st + k) mod length (sender_configs st) \<rparr>)"
  using assms
proof (induction k arbitrary: st)
  case 0
  then show ?case by simp
next
  case (Suc k)
  let ?n = "length (sender_configs st)"
  let ?st' = "st\<lparr> current_sender := (current_sender st + 1) mod ?n \<rparr>"
  have pos: "0 < ?n" using Suc.prems by (cases "sender_configs st") simp_all
  have rng: "current_sender ?st' < length (sender_configs ?st')" using pos by simp
  have step: "get_next_sender st = Inr (sender_configs st ! current_sender st, ?st')"
    using get_next_sender_in_range [OF Suc.prems] .
  have ih: "next_senders k ?st' =
    Inr (map (\<lambda>i. sender_configs st ! (((current_sender st + 1) mod ?n + i) mod ?n)) [0..<k],
         ?st'\<lparr> current_sender := ((current_sender st + 1) mod ?n + k) mod ?n \<rparr>)"
    using Suc.IH [OF rng] by simp
  have idx: "\<And>i. ((current_sender st + 1) mod ?n + i) mod ?n = (current_sender st + Suc i) mod ?n"
    by (simp add: mod_add_left_eq)
  have lst: "map (\<lambda>i. sender_configs st ! ((current_sender st + i) mod ?n)) [0..<Suc k] =
     sender_configs st ! current_sender st #
     map (\<lambda>i. sender_configs st ! ((current_sender st + Suc i) mod ?n)) [0..<k]"
    using Suc.prems by (simp add: upt_conv_Cons map_Suc_upt [symmetric] del: upt_Suc)
  have "next_senders (Suc k) st =
    Inr (sender_configs st ! current_sender st #
         map (\<lambda>i. sender_configs st ! ((current_sender st + Suc i) mod ?n)) [0..<k],
         st\<lparr> current_sender := (current_sender st + Suc k) mod ?n \<rparr>)"
    unfolding next_senders.simps step sum.case prod.case ih idx by simp
  then show ?case unfolding lst .
qed

text \<open>
  C7. From the initial cursor 0 and a non-empty list of identities, as many calls of
  \<open>get_next_sender\<close> as there are identities return the configured list itself (each
  identity once, in the configured order) and leave the pool as it was, so the sequence
  repeats with that period; any number \<open>k\<close> of calls returns the identities at the
  indices \<open>i mod N\<close> for \<open>i < k\<close> without raising, and the cursor afterwards is
  \<open>k mod N\<close>, which is within the list.
\<close>

theorem sender_rotation:
  assumes "sender_configs st \<noteq> []" and "current_sender st = 0"
  shows "next_senders (length (sender_configs st)) st = Inr (sender_configs st, st) \<and>
         (\<forall>k. \<exists>st'. next_senders k st =
            Inr (map (\<lambda>i. sender_configs st ! (i mod length (sender_configs st))) [0..<k], st') \<and>
            current_sender st' = k mod length (sender_configs st) \<and>
            current_sender st' < length (sender_configs st') \<and>
            sender_configs st' = sender_configs st)"
proof -
  let ?n = "length (sender_configs st)"
  have rng: "current_sender st < ?n" using assms by simp
  have all: "next_senders k st =
    Inr (map (\<lambda>i. sender_configs st ! (i mod ?n)) [0..<k], st\<lparr> current_sender := k mod ?n \<rparr>)" for k
    using next_senders_from [OF rng, of k] assms(2) by simp
  have "map (\<lambda>i. sender_configs st ! (i mod ?n)) [0..<?n] = sender_configs st"
    by (rule nth_equalityI) simp_all
  moreover have "st\<lparr> current_sender := ?n mod ?n \<rparr> = st" using assms(2) by simp
  ultimately have one: "next_senders ?n st = Inr (sender_configs st, st)"
    using all [of ?n] by simp
  have "0 < ?n" using assms(1) by simp
  then show ?thesis using one all by simp
qed

theorem sender_rotation_witness:
  "next_senders 3 (EmailVerifier_init [] 24 15 2) =
     Inr (sender_configs (EmailVerifier_init [] 24 15 2), EmailVerifier_init [] 24 15 2)"
proof -
  have n: "length (sender_configs (EmailVerifier_init [] 24 15 2)) = 3"
    by (simp add: EmailVerifier_init_def)
  have a: "sender_configs (EmailVerifier_init [] 24 15 2) \<noteq> []"
    by (simp add: EmailVerifier_init_def)
  have b: "current_sender (EmailVerifier_init [] 24 15 2) = 0"
    by (simp add: EmailVerifier_init_def)
  show ?thesis using sender_rotation [OF a b] by (simp only: n)
qed

subsection \<open>SMTP probe\<close>

lemmas io_defs = io_bind_def io_return_def io_raise_def io_try_def emit_def await_def
  deliver_def readline_def

lemmas char_class_defs = in_range_def is_alpha_def is_digit_def local_char_def domain_char_def
  newline_def crlf_def

lemmas text_defs = continuation_def second_lo_def second_hi_def in_range_def in_span_def
  unicode_space_def int_space_def digit_value_def underscore_def utf8_char_def utf8_encode_def
  char_of_def bit_iff_odd crlf_def

lemma example_verifier_in_range:
  "current_sender example_verifier < length (sender_configs example_verifier)"
  by (simp add: example_verifier_def EmailVerifier_init_def)

lemma example_next_sender:
  "get_next_sender example_verifier =
      Inr (\<lparr> sender_email = ''validator@emailcheck.tech'',
             sender_helo = ''mail-validator-1.emailcheck.tech'' \<rparr>,
           example_verifier\<lparr> current_sender := 1 \<rparr>)"
  by (simp add: get_next_sender_def py_index_def example_verifier_def EmailVerifier_init_def)

text \<open>
  When the greeting and the answers to \<open>EHLO\<close> and \<open>MAIL FROM\<close> are one line each, the
  line read after \<open>RCPT TO\<close> is the first line of the answer to \<open>RCPT TO\<close>; when it is
  valid UTF-8 and the \<open>QUIT\<close> is written, the verdict is the one of that line.
\<close>

lemma smtp_session_single_lines:
  assumes "open_connection p = Inr ()" and "greeting p = [g]" and "startswith g ''220''"
    and "ehlo_drain p = Inr ()" and "ehlo_reply p = [l1]"
    and "mail_drain p = Inr ()" and "mail_reply p = [l2]"
    and "rcpt_drain p = Inr ()" and "rcpt_reply p = reply # later"
    and "utf8_decode reply = Some text" and "quit_drain p = Inr ()"
  shows "fst (smtp_session w p sender addr mx_host \<lparr> inbox = [], events = [] \<rparr>) =
     Inr (parse_status w (strip text) \<in> {250, 251}, parse_status w (strip text),
          utf8_encode (strip text))"
  by (simp add: smtp_session_def io_defs decode_def assms Let_def split: sum.splits)

lemma smtp_verify_single_lines:
  assumes "open_connection (peer w mx_host) = Inr ()" and "greeting (peer w mx_host) = [g]"
    and "startswith g ''220''"
    and "ehlo_drain (peer w mx_host) = Inr ()" and "ehlo_reply (peer w mx_host) = [l1]"
    and "mail_drain (peer w mx_host) = Inr ()" and "mail_reply (peer w mx_host) = [l2]"
    and "rcpt_drain (peer w mx_host) = Inr ()" and "rcpt_reply (peer w mx_host) = reply # later"
    and "utf8_decode reply = Some text" and "quit_drain (peer w mx_host) = Inr ()"
    and "current_sender st < length (sender_configs st)"
  shows "fst (smtp_verify w st addr mx_host) =
     Inr (parse_status w (strip text) \<in> {250, 251}, parse_status w (strip text),
          utf8_encode (strip text))"
proof -
  let ?s = "sender_configs st ! current_sender st"
  have "fst (smtp_session w (peer w mx_host) ?s addr mx_host \<lparr> inbox = [], events = [] \<rparr>) =
     Inr (parse_status w (strip text) \<in> {250, 251}, parse_status w (strip text),
          utf8_encode (strip text))"
    by (rule smtp_session_single_lines [OF assms(1-11)])
  then obtain c where "smtp_session w (peer w mx_host) ?s addr mx_host \<lparr> inbox = [], events = [] \<rparr> =
     (Inr (parse_status w (strip text) \<in> {250, 251}, parse_status w (strip text),
          utf8_encode (strip text)), c)"
    by (cases "smtp_session w (peer w mx_host) ?s addr mx_host \<lparr> inbox = [], events = [] \<rparr>") simp
  then show ?thesis
    by (simp add: smtp_verify_def get_next_sender_def py_index_def assms(12) io_try_def)
qed

text \<open>
  C1. The failing input of the claim: a server that answers \<open>EHLO\<close> with three lines
  (its name and two extensions), \<open>MAIL FROM\<close> with \<open>250\<close> and \<open>RCPT TO\<close> with
  \<open>550 5.1.1 Unknown user\<close>. The probe reads one line after each command, so the line
  it reads after \<open>RCPT TO\<close> is the third line of the answer to \<open>EHLO\<close>, \<open>250 HELP\<close>: it
  returns the verdict true with the code 250, although the code of the answer to
  \<open>RCPT TO\<close> is 550. The exchange is complete: \<open>RCPT TO\<close> and \<open>QUIT\<close> are sent and the
  connection is closed.
\<close>

theorem smtp_verify_takes_ehlo_line_for_verdict:
  "(\<exists>st' t. smtp_verify (example_world multiline_peer) example_verifier ''user@example.com''
       ''mx1.example.com'' = (Inr (True, 250, ''250 HELP''), st', t) \<and>
     Send (''RCPT TO:<user@example.com>'' @ crlf) \<in> set t \<and>
     Send (''QUIT'' @ crlf) \<in> set t \<and> Close \<in> set t) \<and>
   rcpt_reply multiline_peer = [''550 5.1.1 Unknown user'' @ crlf] \<and>
   (\<exists>text. decode (example_world multiline_peer) (''550 5.1.1 Unknown user'' @ crlf) = Inr text \<and>
      parse_status (example_world multiline_peer) (strip text) = 550)"
proof -
  have "\<exists>st' t. smtp_verify (example_world multiline_peer) example_verifier ''user@example.com''
       ''mx1.example.com'' = (Inr (True, 250, ''250 HELP''), st', t) \<and>
     Send (''RCPT TO:<user@example.com>'' @ crlf) \<in> set t \<and>
     Send (''QUIT'' @ crlf) \<in> set t \<and> Close \<in> set t"
    by (simp add: smtp_verify_def example_next_sender smtp_session_def smtp_handler_def io_defs
        example_world_def multiline_peer_def peer_replying_def startswith_def decode_def
        parse_status_def py_int_def strip_def text_defs Let_def)
  moreover have "rcpt_reply multiline_peer = [''550 5.1.1 Unknown user'' @ crlf]"
    by (simp add: multiline_peer_def peer_replying_def)
  moreover have "\<exists>text. decode (example_world multiline_peer)
        (''550 5.1.1 Unknown user'' @ crlf) = Inr text \<and>
      parse_status (example_world multiline_peer) (strip text) = 550"
    by (simp add: decode_def parse_status_def py_int_def strip_def example_world_def
        text_defs Let_def)
  ultimately show ?thesis by (intro conjI)
qed

text \<open>
  C2. The failing input of the claim: the server accepts the connection, sends a \<open>220\<close>
  greeting and then never answers \<open>EHLO\<close>, so the read times out. \<open>smtp_verify\<close> returns
  \<open>(False, 0, msg_timeout)\<close> without raising, but the events of the call hold the opened
  connection and no close: the handler returns without \<open>writer.close()\<close>, which only the
  completed session calls.
\<close>

theorem smtp_verify_timeout_leaves_connection_open:
  "\<exists>st' t. smtp_verify (example_world stalling_peer) example_verifier ''user@example.com''
       ''mx1.example.com'' = (Inr (False, 0, msg_timeout), st', t) \<and>
     t = [Connect ''mx1.example.com'' 25, Opened,
          Send (''EHLO mail-validator-1.emailcheck.tech'' @ crlf)] \<and>
     Opened \<in> set t \<and> Close \<notin> set t"
  by (simp add: smtp_verify_def example_next_sender smtp_session_def smtp_handler_def io_defs
      example_world_def stalling_peer_def peer_replying_def startswith_def)

text \<open>
  Two more replies to \<open>RCPT TO\<close>, from a server whose other answers are one line each.
  A reply that is not valid UTF-8 raises in \<open>decode()\<close>, before the \<open>QUIT\<close>: the result is
  the failure triple with the decoder's message, and the connection stays open. A reply
  that begins with the full-width digits \<open>250\<close> is accepted, since \<open>int()\<close> reads them.
\<close>

lemma smtp_verify_undecodable_reply:
  "\<exists>st' t. smtp_verify (example_world (peer_replying (''250 '' @ [CHR 0xE9] @ crlf)))
       example_verifier ''user@example.com'' ''mx1.example.com'' =
       (Inr (False, 0, example_codec_error (''250 '' @ [CHR 0xE9] @ crlf)), st', t) \<and>
     Opened \<in> set t \<and> Close \<notin> set t"
  by (simp add: smtp_verify_def example_next_sender smtp_session_def smtp_handler_def io_defs
      example_world_def peer_replying_def startswith_def decode_def text_defs)

lemma smtp_verify_full_width_digits:
  "\<exists>st' t. smtp_verify (example_world (peer_replying
         ([CHR 0xEF, CHR 0xBC, CHR 0x92, CHR 0xEF, CHR 0xBC, CHR 0x95, CHR 0xEF, CHR 0xBC, CHR 0x90]
          @ '' ok'' @ crlf)))
       example_verifier ''user@example.com'' ''mx1.example.com'' =
       (Inr (True, 250,
          [CHR 0xEF, CHR 0xBC, CHR 0x92, CHR 0xEF, CHR 0xBC, CHR 0x95, CHR 0xEF, CHR 0xBC, CHR 0x90]
          @ '' ok''), st', t)"
  by (simp add: smtp_verify_def example_next_sender smtp_session_def smtp_handler_def io_defs
      example_world_def peer_replying_def startswith_def decode_def parse_status_def py_int_def
      strip_def example_decimal_def text_defs Let_def)

subsection \<open>MX resolver\<close>

lemma rstrip_char_replicate:
  "\<exists>k. s = rstrip_char c s @ replicate k c"
proof -
  let ?P = "\<lambda>x. x = c"
  have "rev (dropWhile ?P (rev s)) @ rev (takeWhile ?P (rev s)) =
      rev (takeWhile ?P (rev s) @ dropWhile ?P (rev s))"
    by (simp only: rev_append)
  also have "\<dots> = s"
    by (simp only: takeWhile_dropWhile_id rev_rev_ident)
  finally have s: "s = rev (dropWhile ?P (rev s)) @ rev (takeWhile ?P (rev s))" by simp
  have "replicate (length (rev (takeWhile ?P (rev s)))) c = rev (takeWhile ?P (rev s))"
    by (rule replicate_length_same) (auto dest: set_takeWhileD)
  then show ?thesis using s unfolding rstrip_char_def by metis
qed

lemma rstrip_char_no_trailing:
  "rstrip_char c s = [] \<or> last (rstrip_char c s) \<noteq> c"
proof (cases "dropWhile (\<lambda>x. x = c) (rev s)")
  case Nil
  then show ?thesis by (simp add: rstrip_char_def)
next
  case (Cons y ys)
  then have "y \<noteq> c" using hd_dropWhile [of "\<lambda>x. x = c" "rev s"] by auto
  then show ?thesis using Cons by (simp add: rstrip_char_def)
qed

text \<open>
  C6. When the query returns an answer, \<open>get_mx_records\<close> returns the exchange names of
  the answer's records in the order of a stable sort by ascending preference (the same
  records, none lost or added), each with its trailing dots removed: no returned name
  ends with a dot, and every exchange name is the returned name followed by dots only.
  When the query raises, whatever the exception, the result is the empty list. The
  function returns a list in both cases, so it never raises.
\<close>

theorem get_mx_records_sorted_stripped:
  "(\<forall>answer. resolve w domain = Inr answer \<longrightarrow>
      get_mx_records w domain =
        map (\<lambda>mx. rstrip_char CHR ''.'' (exchange mx)) (sort_key preference answer) \<and>
      sorted (map preference (sort_key preference answer)) \<and>
      mset (sort_key preference answer) = mset answer \<and>
      (\<forall>h \<in> set (get_mx_records w domain). h = [] \<or> last h \<noteq> CHR ''.'') \<and>
      (\<forall>mx \<in> set answer. \<exists>k.
         exchange mx = rstrip_char CHR ''.'' (exchange mx) @ replicate k CHR ''.'')) \<and>
   (\<forall>e. resolve w domain = Inl e \<longrightarrow> get_mx_records w domain = [])"
proof -
  have "h = [] \<or> last h \<noteq> CHR ''.''"
    if r: "resolve w domain = Inr answer" and h: "h \<in> set (get_mx_records w domain)" for answer h
  proof -
    obtain mx :: mx_rdata where "h = rstrip_char CHR ''.'' (exchange mx)"
      using r h by (auto simp: get_mx_records_def)
    then show ?thesis using rstrip_char_no_trailing by simp
  qed
  then show ?thesis
    using rstrip_char_replicate by (auto simp: get_mx_records_def)
qed

theorem get_mx_records_sorted_stripped_witness:
  "get_mx_records (example_world stalling_peer) ''example.com'' =
     [''mx1.example.com'', ''mx2.example.com''] \<and>
   sorted (map preference (sort_key preference
     [\<lparr> preference = 20, exchange = ''mx2.example.com.'' \<rparr>,
      \<lparr> preference = 10, exchange = ''mx1.example.com.'' \<rparr>])) \<and>
   get_mx_records (example_world stalling_peer) ''example.org'' = []"
proof -
  let ?w = "example_world stalling_peer"
  let ?answer = "[\<lparr> preference = 20, exchange = ''mx2.example.com.'' \<rparr>,
                  \<lparr> preference = 10, exchange = ''mx1.example.com.'' \<rparr>]"
  have r1: "resolve ?w ''example.com'' = Inr ?answer"
    by (simp add: example_world_def example_dns_def)
  have r2: "resolve ?w ''example.org'' = Inl (Exception ''The DNS query name does not exist'')"
    by (simp add: example_world_def example_dns_def)
  have "get_mx_records ?w ''example.com'' =
      map (\<lambda>mx. rstrip_char CHR ''.'' (exchange mx)) (sort_key preference ?answer)"
    and s: "sorted (map preference (sort_key preference ?answer))"
    using get_mx_records_sorted_stripped [of ?w "''example.com''"] r1 by blast+
  then have a: "get_mx_records ?w ''example.com'' = [''mx1.example.com'', ''mx2.example.com'']"
    by (simp add: rstrip_char_def)
  have b: "get_mx_records ?w ''example.org'' = []"
    using get_mx_records_sorted_stripped [of ?w "''example.org''"] r2 by blast
  show ?thesis using a s b by blast
qed

subsection \<open>Address validator\<close>

lemma re_match_Rep:
  "re_match_at (Rep cls n # r) b s \<longleftrightarrow>
     (n = 0 \<and> re_match_at r b s) \<or>
     (\<exists>u v. s = u @ v \<and> u \<noteq> [] \<and> n \<le> length u \<and> (\<forall>c \<in> set u. cls c) \<and>
        re_match_at r False v)"
proof (induction s arbitrary: n b)
  case Nil
  show ?case by simp
next
  case (Cons x xs)
  let ?tail = "\<lambda>m. \<exists>u v. xs = u @ v \<and> u \<noteq> [] \<and> m \<le> length u \<and> (\<forall>c \<in> set u. cls c) \<and>
        re_match_at r False v"
  let ?whole = "\<exists>u v. x # xs = u @ v \<and> u \<noteq> [] \<and> n \<le> length u \<and> (\<forall>c \<in> set u. cls c) \<and>
        re_match_at r False v"
  have ih: "re_match_at (Rep cls (n - 1) # r) False xs \<longleftrightarrow>
      (n - 1 = 0 \<and> re_match_at r False xs) \<or> ?tail (n - 1)"
    by (rule Cons.IH)
  have w: "?whole \<longleftrightarrow> cls x \<and> ((n - 1 = 0 \<and> re_match_at r False xs) \<or> ?tail (n - 1))"
  proof
    assume ?whole
    then obtain u v where uv: "x # xs = u @ v" "u \<noteq> []" "n \<le> length u"
        "\<forall>c \<in> set u. cls c" "re_match_at r False v" by blast
    from uv(1,2) obtain u' where u': "u = x # u'" "xs = u' @ v"
      by (cases u) simp_all
    have cx: "cls x" using uv(4) u'(1) by simp
    have cu': "\<forall>c \<in> set u'. cls c" using uv(4) u'(1) by simp
    show "cls x \<and> ((n - 1 = 0 \<and> re_match_at r False xs) \<or> ?tail (n - 1))"
    proof (cases "u' = []")
      case True
      have "n - 1 = 0" using uv(3) u'(1) True by simp
      moreover have "re_match_at r False xs" using uv(5) u'(2) True by simp
      ultimately show ?thesis using cx by blast
    next
      case False
      have "n - 1 \<le> length u'" using uv(3) u'(1) by simp
      then have "xs = u' @ v \<and> u' \<noteq> [] \<and> n - 1 \<le> length u' \<and> (\<forall>c \<in> set u'. cls c) \<and>
          re_match_at r False v"
        using False u'(2) cu' uv(5) by blast
      then have "?tail (n - 1)" by blast
      then show ?thesis using cx by blast
    qed
  next
    assume rhs: "cls x \<and> ((n - 1 = 0 \<and> re_match_at r False xs) \<or> ?tail (n - 1))"
    have cx: "cls x" using rhs by (rule conjunct1)
    have alt: "(n - 1 = 0 \<and> re_match_at r False xs) \<or> ?tail (n - 1)"
      using rhs by (rule conjunct2)
    show ?whole using alt
    proof
      assume one: "n - 1 = 0 \<and> re_match_at r False xs"
      have "n \<le> length [x]" using one by simp
      then have "x # xs = [x] @ xs \<and> [x] \<noteq> [] \<and> n \<le> length [x] \<and> (\<forall>c \<in> set [x]. cls c) \<and>
          re_match_at r False xs"
        using one cx by simp
      then show ?whole by (intro exI)
    next
      assume "?tail (n - 1)"
      then obtain u v where uv: "xs = u @ v" "u \<noteq> []" "n - 1 \<le> length u"
          "\<forall>c \<in> set u. cls c" "re_match_at r False v" by (elim exE conjE)
      have "n \<le> length (x # u)" using uv(3) by simp
      then have "x # xs = (x # u) @ v \<and> x # u \<noteq> [] \<and> n \<le> length (x # u) \<and>
          (\<forall>c \<in> set (x # u). cls c) \<and> re_match_at r False v"
        using uv cx by simp
      then show ?whole by (intro exI)
    qed
  qed
  have "re_match_at (Rep cls n # r) b (x # xs) \<longleftrightarrow>
      (n = 0 \<and> re_match_at r b (x # xs)) \<or> (cls x \<and> re_match_at (Rep cls (n - 1) # r) False xs)"
    by simp
  then show ?case unfolding ih w [symmetric] .
qed

lemma re_match_Lit:
  "re_match_at (Lit c # r) b s \<longleftrightarrow> (\<exists>v. s = c # v \<and> re_match_at r False v)"
  by (cases s) auto

text \<open>What the pattern accepts, read off the matcher.\<close>

lemma is_valid_email_format_iff:
  "is_valid_email_format s \<longleftrightarrow>
     (\<exists>l d t e. s = l @ CHR ''@'' # d @ CHR ''.'' # t @ e \<and>
        l \<noteq> [] \<and> (\<forall>c \<in> set l. local_char c) \<and>
        d \<noteq> [] \<and> (\<forall>c \<in> set d. domain_char c) \<and>
        2 \<le> length t \<and> (\<forall>c \<in> set t. is_alpha c) \<and>
        (e = [] \<or> e = [newline]))"
  (is "?lhs \<longleftrightarrow> ?rhs")
proof
  assume ?lhs
  then have "re_match_at (Rep local_char 1 # Lit CHR ''@'' # Rep domain_char 1 # Lit CHR ''.'' #
      [Rep is_alpha 2, Eol]) True s"
    by (simp add: is_valid_email_format_def pattern_def)
  then obtain l v1 where 1: "s = l @ v1" "l \<noteq> []" "\<forall>c \<in> set l. local_char c"
      "re_match_at (Lit CHR ''@'' # Rep domain_char 1 # Lit CHR ''.'' # [Rep is_alpha 2, Eol]) False v1"
    unfolding re_match_Rep [of local_char] by auto
  then obtain v2 where 2: "v1 = CHR ''@'' # v2"
      "re_match_at (Rep domain_char 1 # Lit CHR ''.'' # [Rep is_alpha 2, Eol]) False v2"
    unfolding re_match_Lit by auto
  then obtain d v3 where 3: "v2 = d @ v3" "d \<noteq> []" "\<forall>c \<in> set d. domain_char c"
      "re_match_at (Lit CHR ''.'' # [Rep is_alpha 2, Eol]) False v3"
    unfolding re_match_Rep [of domain_char] by auto
  then obtain v4 where 4: "v3 = CHR ''.'' # v4" "re_match_at [Rep is_alpha 2, Eol] False v4"
    unfolding re_match_Lit by auto
  then obtain t e where 5: "v4 = t @ e" "2 \<le> length t" "\<forall>c \<in> set t. is_alpha c"
      "re_match_at [Eol] False e"
    unfolding re_match_Rep [of is_alpha] by auto
  have 6: "e = [] \<or> e = [newline]" using 5(4) by simp
  have "s = l @ CHR ''@'' # d @ CHR ''.'' # t @ e"
    using 1(1) 2(1) 3(1) 4(1) 5(1) by simp
  then show ?rhs using 1 3 5 6 by blast
next
  assume ?rhs
  then obtain l d t e where s: "s = l @ CHR ''@'' # d @ CHR ''.'' # t @ e"
      and l: "l \<noteq> []" "\<forall>c \<in> set l. local_char c"
      and d: "d \<noteq> []" "\<forall>c \<in> set d. domain_char c"
      and t: "2 \<le> length t" "\<forall>c \<in> set t. is_alpha c"
      and e: "e = [] \<or> e = [newline]" by blast
  have 5: "re_match_at [Eol] False e" using e by auto
  have tne: "t \<noteq> []" using t(1) by auto
  have 4: "re_match_at [Rep is_alpha 2, Eol] False (t @ e)"
    unfolding re_match_Rep [of is_alpha] using t tne 5 by blast
  have 3: "re_match_at (Lit CHR ''.'' # [Rep is_alpha 2, Eol]) False (CHR ''.'' # t @ e)"
    using 4 by simp
  have 2: "re_match_at (Rep domain_char 1 # Lit CHR ''.'' # [Rep is_alpha 2, Eol]) False
      (d @ CHR ''.'' # t @ e)"
    unfolding re_match_Rep [of domain_char] using d 3
    by (metis One_nat_def Suc_leI length_greater_0_conv)
  have 1: "re_match_at (Lit CHR ''@'' # Rep domain_char 1 # Lit CHR ''.'' # [Rep is_alpha 2, Eol])
      False (CHR ''@'' # d @ CHR ''.'' # t @ e)"
    using 2 by simp
  have "re_match_at (Rep local_char 1 # Lit CHR ''@'' # Rep domain_char 1 # Lit CHR ''.'' #
      [Rep is_alpha 2, Eol]) True (l @ CHR ''@'' # d @ CHR ''.'' # t @ e)"
    unfolding re_match_Rep [of local_char] using l 1
    by (metis One_nat_def Suc_leI length_greater_0_conv)
  then show ?lhs by (simp add: is_valid_email_format_def pattern_def s)
qed
lemma split_on_length:
  "length (split_on sep s) = Suc (length (filter (\<lambda>c. c = sep) s))"
  by (induction s) (auto split: list.splits)

lemma valid_format_has_domain:
  assumes "is_valid_email_format addr"
  shows "\<exists>d. py_index (split_on CHR ''@'' addr) 1 = Inr d"
proof -
  obtain l r where "addr = l @ CHR ''@'' # r"
    using assms unfolding is_valid_email_format_iff by blast
  then have "filter (\<lambda>c. c = CHR ''@'') addr \<noteq> []"
    by (simp add: filter_empty_conv)
  then have "1 < length (split_on CHR ''@'' addr)"
    unfolding split_on_length by (cases "filter (\<lambda>c. c = CHR ''@'') addr") simp_all
  then show ?thesis by (simp add: py_index_def)
qed

lemma trailing_newline_accepted:
  "is_valid_email_format (''user@example.com'' @ [newline])"
  by (simp add: is_valid_email_format_def pattern_def char_class_defs)

text \<open>
  C4, as stated, fails: \<open>a@b..co\<close> passes the format check although its domain has an
  empty label between the two dots, which is not a label of letters, digits and hyphens.
\<close>

theorem is_valid_email_format_counterexample:
  "is_valid_email_format ''a@b..co'' \<and> \<not> spec_is_well_formed ''a@b..co''"
proof -
  have a: "is_valid_email_format ''a@b..co''"
    by (simp add: is_valid_email_format_def pattern_def char_class_defs)
  have b: "\<not> spec_is_well_formed ''a@b..co''"
    by (simp add: spec_is_well_formed_def spec_domain_def)
  show ?thesis using a b by (rule conjI)
qed

text \<open>
  C4, amended. For a string that does not end with a newline, \<open>is_valid_email_format\<close>
  is true exactly when the string is \<open>local@rest.tld\<close>, where \<open>local\<close> is one or more
  characters out of letters, digits and \<open>._%+-\<close>, \<open>rest\<close> is one or more characters out of
  letters, digits, dot and hyphen (so labels may be empty and dots may be adjacent), and
  \<open>tld\<close> is two or more letters; every other such string is rejected. (Strings that end
  with a newline are left out of the statement.)
\<close>

theorem is_valid_email_format_shape:
  assumes "addr = [] \<or> last addr \<noteq> newline"
  shows "is_valid_email_format addr \<longleftrightarrow>
     (\<exists>l d t. addr = l @ ''@'' @ d @ ''.'' @ t \<and>
        l \<noteq> [] \<and> (\<forall>c \<in> set l. local_char c) \<and>
        d \<noteq> [] \<and> (\<forall>c \<in> set d. domain_char c) \<and>
        2 \<le> length t \<and> (\<forall>c \<in> set t. is_alpha c))"
  (is "?lhs \<longleftrightarrow> ?rhs")
proof
  assume ?lhs
  then obtain l d t e where s: "addr = l @ CHR ''@'' # d @ CHR ''.'' # t @ e"
      and p: "l \<noteq> []" "\<forall>c \<in> set l. local_char c" "d \<noteq> []" "\<forall>c \<in> set d. domain_char c"
        "2 \<le> length t" "\<forall>c \<in> set t. is_alpha c"
      and e: "e = [] \<or> e = [newline]"
    unfolding is_valid_email_format_iff by blast
  have "e = []"
  proof (rule ccontr)
    assume "e \<noteq> []"
    then have "e = [newline]" using e by simp
    then have "last addr = newline" and "addr \<noteq> []" using s by simp_all
    then show False using assms by simp
  qed
  then have "addr = l @ ''@'' @ d @ ''.'' @ t" using s by simp
  then show ?rhs using p by blast
next
  assume ?rhs
  then obtain l d t where s: "addr = l @ ''@'' @ d @ ''.'' @ t"
      and p: "l \<noteq> []" "\<forall>c \<in> set l. local_char c" "d \<noteq> []" "\<forall>c \<in> set d. domain_char c"
        "2 \<le> length t" "\<forall>c \<in> set t. is_alpha c"
    by blast
  have "addr = l @ CHR ''@'' # d @ CHR ''.'' # t @ [] \<and>
      l \<noteq> [] \<and> (\<forall>c \<in> set l. local_char c) \<and>
      d \<noteq> [] \<and> (\<forall>c \<in> set d. domain_char c) \<and>
      2 \<le> length t \<and> (\<forall>c \<in> set t. is_alpha c) \<and> ([] = [] \<or> [] = [newline])"
    using s p by simp
  then show ?lhs unfolding is_valid_email_format_iff by (intro exI)
qed

theorem is_valid_email_format_shape_witness:
  "is_valid_email_format ''user@example.com'' \<and>
   (\<exists>l d t. ''user@example.com'' = l @ ''@'' @ d @ ''.'' @ t \<and>
        l \<noteq> [] \<and> (\<forall>c \<in> set l. local_char c) \<and>
        d \<noteq> [] \<and> (\<forall>c \<in> set d. domain_char c) \<and>
        2 \<le> length t \<and> (\<forall>c \<in> set t. is_alpha c)) \<and>
   \<not> is_valid_email_format ''user@com''"
proof -
  have a: "is_valid_email_format ''user@example.com''"
    by (simp add: is_valid_email_format_def pattern_def char_class_defs)
  have n: "''user@example.com'' = [] \<or> last ''user@example.com'' \<noteq> newline"
    by (simp add: newline_def)
  have b: "\<not> is_valid_email_format ''user@com''"
    by (simp add: is_valid_email_format_def pattern_def char_class_defs)
  show ?thesis
    using a b is_valid_email_format_shape [OF n] by (simp only: simp_thms)
qed

subsection \<open>Verification cache\<close>

lemma insert_or_replace_distinct:
  assumes "distinct (map col_email rows)"
  shows "distinct (map col_email (insert_or_replace row rows))"
  using assms by (auto simp: insert_or_replace_def distinct_map_filter)

lemma insert_or_replace_same_key:
  "filter (\<lambda>r. col_email r = col_email row) (insert_or_replace row rows) = [row]"
  by (induction rows) (auto simp: insert_or_replace_def)

lemma insert_or_replace_other_keys:
  "filter (\<lambda>r. col_email r \<noteq> col_email row) (insert_or_replace row rows) =
     filter (\<lambda>r. col_email r \<noteq> col_email row) rows"
  by (induction rows) (auto simp: insert_or_replace_def)

lemma find_key_and:
  assumes "distinct (map col_email rows)"
  shows "find (\<lambda>r. col_email r = k \<and> P r) rows =
     (case find (\<lambda>r. col_email r = k) rows of
        None \<Rightarrow> None
      | Some r \<Rightarrow> if P r then Some r else None)"
  using assms
proof (induction rows)
  case Nil
  show ?case by simp
next
  case (Cons a rows)
  show ?case
  proof (cases "col_email a = k")
    case True
    have notin: "col_email a \<notin> set (map col_email rows)" using Cons.prems by simp
    have "\<forall>r \<in> set rows. col_email r \<noteq> k"
    proof
      fix r assume "r \<in> set rows"
      then have "col_email r \<in> set (map col_email rows)" by (simp only: set_map) (rule imageI)
      then show "col_email r \<noteq> k" using notin True by metis
    qed
    then have "find (\<lambda>r. col_email r = k \<and> P r) rows = None"
      unfolding find_None_iff by blast
    then show ?thesis using True by simp
  next
    case False
    then show ?thesis using Cons by simp
  qed
qed

lemma row_round_trip:
  "result_of_row (row_of_result r) = r\<lparr> cached := True \<rparr>"
  by (simp add: result_of_row_def row_of_result_def)

lemma hit_path:
  assumes "get_cached_result w st addr = Some r"
  shows "verify_email w st addr = (Inr r, st, [CacheRead addr])"
  using assms by (simp add: verify_email_def)

lemma get_cached_result_cached:
  assumes "get_cached_result w st addr = Some r"
  shows "cached r \<and> email r = addr"
proof -
  obtain row where f: "find (\<lambda>row. col_email row = addr \<and>
      col_timestamp row > now_lookup w - cache_duration st) (table st) = Some row"
    and r: "r = result_of_row row"
    using assms by (auto simp: get_cached_result_def Let_def split: if_splits option.splits)
  have "col_email row = addr" using f by (auto simp: find_Some_iff)
  then show ?thesis using r by (simp add: result_of_row_def)
qed

text \<open>
  C8, as stated, fails for a cache duration that reaches back before year 1: with
  \<open>CACHE_DURATION_HOURS = 18000000\<close> and a row stored ten hours before the lookup, the
  store can be read and the row is younger than the cache duration, but
  \<open>datetime.now() - self.cache_duration\<close> raises \<open>OverflowError\<close> and the lookup
  returns nothing.
\<close>

theorem get_cached_result_overflow_counterexample:
  "get_cached_result (example_world stalling_peer)
      (EmailVerifier_init [example_row] 18000000 15 2) ''user@example.com'' = None \<and>
   \<not> read_fault (example_world stalling_peer) \<and>
   find (\<lambda>row. col_email row = ''user@example.com'')
      (table (EmailVerifier_init [example_row] 18000000 15 2)) = Some example_row \<and>
   now_lookup (example_world stalling_peer) - col_timestamp example_row
     < cache_duration (EmailVerifier_init [example_row] 18000000 15 2)"
  by (simp add: get_cached_result_def cutoff_overflows_def datetime_min_def datetime_max_def
      example_world_def example_row_def EmailVerifier_init_def hour_def)

text \<open>
  C8, amended. When the cutoff, the time of the lookup minus the cache duration, is a
  point in time that \<open>datetime\<close> can represent (from year 1 to year 9999), and the store
  can be read and holds at most one row per address, \<open>get_cached_result\<close> returns the
  outcome stored for the address exactly when the time of the lookup minus the stored
  timestamp is less than the cache duration, and nothing when the row is older or
  missing. A returned outcome is the stored one with \<open>cached = True\<close>, and
  \<open>verify_email\<close> then returns it at once: the verifier is unchanged and the only event
  of the call is the cache read.
\<close>

theorem get_cached_result_fresh:
  assumes "\<not> cutoff_overflows w st" and "\<not> read_fault w"
    and "distinct (map col_email (table st))"
  shows "get_cached_result w st addr =
      (case find (\<lambda>row. col_email row = addr) (table st) of
         None \<Rightarrow> None
       | Some row \<Rightarrow>
           if now_lookup w - col_timestamp row < cache_duration st
           then Some (result_of_row row) else None) \<and>
     (\<forall>r. get_cached_result w st addr = Some r \<longrightarrow>
        cached r \<and> email r = addr \<and> verify_email w st addr = (Inr r, st, [CacheRead addr])) \<and>
     (\<forall>r0. result_of_row (row_of_result r0) = r0\<lparr> cached := True \<rparr>)"
proof -
  have iff: "(col_timestamp row > now_lookup w - cache_duration st) =
      (now_lookup w - col_timestamp row < cache_duration st)" for row
    by auto
  have "get_cached_result w st addr =
      (case find (\<lambda>row. col_email row = addr) (table st) of
         None \<Rightarrow> None
       | Some row \<Rightarrow>
           if now_lookup w - col_timestamp row < cache_duration st
           then Some (result_of_row row) else None)"
    using assms(1,2)
    by (simp add: get_cached_result_def Let_def find_key_and [OF assms(3)] iff
        split: option.splits)
  then show ?thesis
    using hit_path get_cached_result_cached row_round_trip by blast
qed

theorem get_cached_result_fresh_witness:
  "get_cached_result (example_world stalling_peer) (example_verifier\<lparr> table := [example_row] \<rparr>)
      ''user@example.com'' = Some (result_of_row example_row) \<and>
   verify_email (example_world stalling_peer) (example_verifier\<lparr> table := [example_row] \<rparr>)
      ''user@example.com'' =
     (Inr (result_of_row example_row), example_verifier\<lparr> table := [example_row] \<rparr>,
      [CacheRead ''user@example.com'']) \<and>
   get_cached_result ((example_world stalling_peer)\<lparr> now_lookup := 17733270 * hour \<rparr>)
      (example_verifier\<lparr> table := [example_row] \<rparr>) ''user@example.com'' = None"
proof -
  let ?w = "example_world stalling_peer"
  let ?w' = "(example_world stalling_peer)\<lparr> now_lookup := 17733270 * hour \<rparr>"
  let ?st = "example_verifier\<lparr> table := [example_row] \<rparr>"
  have ov: "\<not> cutoff_overflows ?w ?st" "\<not> cutoff_overflows ?w' ?st"
    by (simp_all add: cutoff_overflows_def datetime_min_def datetime_max_def example_world_def
        example_verifier_def EmailVerifier_init_def hour_def)
  have rf: "\<not> read_fault ?w" "\<not> read_fault ?w'" by (simp_all add: example_world_def)
  have d: "distinct (map col_email (table ?st))" by simp
  have f: "find (\<lambda>row. col_email row = ''user@example.com'') (table ?st) = Some example_row"
    by (simp add: example_row_def)
  have fresh: "now_lookup ?w - col_timestamp example_row < cache_duration ?st"
    by (simp add: example_world_def example_row_def example_verifier_def
        EmailVerifier_init_def hour_def)
  have stale: "\<not> now_lookup ?w' - col_timestamp example_row < cache_duration ?st"
    by (simp add: example_world_def example_row_def example_verifier_def
        EmailVerifier_init_def hour_def)
  have a: "get_cached_result ?w ?st ''user@example.com'' = Some (result_of_row example_row)"
    using get_cached_result_fresh [OF ov(1) rf(1) d, of "''user@example.com''"] fresh
    by (simp only: f option.case if_True)
  have b: "verify_email ?w ?st ''user@example.com'' =
      (Inr (result_of_row example_row), ?st, [CacheRead ''user@example.com''])"
    using get_cached_result_fresh [OF ov(1) rf(1) d, of "''user@example.com''"] a by blast
  have c: "get_cached_result ?w' ?st ''user@example.com'' = None"
    using get_cached_result_fresh [OF ov(2) rf(2) d, of "''user@example.com''"] stale
    by (simp only: f option.case if_False)
  show ?thesis using a b c by (intro conjI)
qed

subsection \<open>Effects of the probe\<close>

lemma only_network_return: "only_network (io_return x)"
  by (simp add: only_network_def io_return_def)

lemma only_network_raise: "only_network (io_raise e)"
  by (simp add: only_network_def io_raise_def)

lemma only_network_await: "only_network (await r)"
  by (simp add: only_network_def await_def)

lemma only_network_deliver: "only_network (deliver lines)"
  by (simp add: only_network_def deliver_def)

lemma only_network_readline: "only_network (readline p)"
  by (simp add: only_network_def readline_def split: list.splits)

lemma only_network_emit: "network_event ev \<Longrightarrow> only_network (emit ev)"
  by (simp add: only_network_def emit_def)

lemma only_network_bind:
  assumes "only_network m" and "\<And>x. only_network (f x)"
  shows "only_network (io_bind m f)"
  unfolding only_network_def
proof
  fix c
  obtain evs where m: "events (snd (m c)) = events c @ evs" "list_all network_event evs"
    using assms(1) unfolding only_network_def by blast
  show "\<exists>evs. events (snd (io_bind m f c)) = events c @ evs \<and> list_all network_event evs"
  proof (cases "fst (m c)")
    case (Inl e)
    then have "io_bind m f c = (Inl e, snd (m c))"
      by (cases "m c") (simp add: io_bind_def)
    then show ?thesis using m by simp
  next
    case (Inr x)
    then have b: "io_bind m f c = f x (snd (m c))"
      by (cases "m c") (simp add: io_bind_def)
    obtain evs' where f: "events (snd (f x (snd (m c)))) = events (snd (m c)) @ evs'"
        "list_all network_event evs'"
      using assms(2) [of x] unfolding only_network_def by blast
    have "events (snd (io_bind m f c)) = events c @ (evs @ evs') \<and>
        list_all network_event (evs @ evs')"
      using b f m by simp
    then show ?thesis by (intro exI)
  qed
qed

lemma only_network_try:
  assumes "only_network m" and "\<And>e. only_network (handler e)"
  shows "only_network (io_try m handler)"
  unfolding only_network_def
proof
  fix c
  obtain evs where m: "events (snd (m c)) = events c @ evs" "list_all network_event evs"
    using assms(1) unfolding only_network_def by blast
  show "\<exists>evs. events (snd (io_try m handler c)) = events c @ evs \<and> list_all network_event evs"
  proof (cases "fst (m c)")
    case (Inr x)
    then have "io_try m handler c = (Inr x, snd (m c))"
      by (cases "m c") (simp add: io_try_def)
    then show ?thesis using m by simp
  next
    case (Inl e)
    then have b: "io_try m handler c = handler e (snd (m c))"
      by (cases "m c") (simp add: io_try_def)
    obtain evs' where f: "events (snd (handler e (snd (m c)))) = events (snd (m c)) @ evs'"
        "list_all network_event evs'"
      using assms(2) [of e] unfolding only_network_def by blast
    have "events (snd (io_try m handler c)) = events c @ (evs @ evs') \<and>
        list_all network_event (evs @ evs')"
      using b f m by simp
    then show ?thesis by (intro exI)
  qed
qed

lemmas only_network_intros = only_network_bind only_network_try only_network_return
  only_network_raise only_network_await only_network_emit only_network_deliver
  only_network_readline

lemma only_network_session: "only_network (smtp_session w p sender addr mx_host)"
  unfolding smtp_session_def Let_def
  by (intro only_network_intros) (simp_all add: only_network_return only_network_raise)

lemma only_network_handler: "only_network (smtp_handler e)"
  by (cases e) (simp_all add: smtp_handler_def only_network_return)

lemma smtp_verify_effects:
  assumes "smtp_verify w st addr mx_host = (r, st', t)"
  shows "table st' = table st \<and> list_all network_event t"
proof (cases "get_next_sender st")
  case (Inl e)
  then show ?thesis using assms by (simp add: smtp_verify_def)
next
  case (Inr sx)
  obtain sender st1 where sx: "sx = (sender, st1)" by (cases sx)
  have st1: "table st1 = table st"
    using Inr sx by (auto simp: get_next_sender_def split: sum.splits)
  let ?m = "io_try (smtp_session w (peer w mx_host) sender addr mx_host) smtp_handler"
  let ?c = "\<lparr> inbox = [], events = [] \<rparr>"
  have "only_network ?m"
    by (intro only_network_try only_network_session only_network_handler)
  then obtain evs where evs: "events (snd (?m ?c)) = events ?c @ evs" "list_all network_event evs"
    unfolding only_network_def by blast
  have "st' = st1 \<and> t = events (snd (?m ?c))"
    using assms Inr sx by (auto simp: smtp_verify_def split: prod.splits)
  then show ?thesis using st1 evs by simp
qed

lemma network_event_not_write: "list_all network_event t \<Longrightarrow> filter is_cache_write t = []"
proof (induction t)
  case Nil
  show ?case by simp
next
  case (Cons ev t)
  then show ?case by (cases ev) simp_all
qed

subsection \<open>The paths of the orchestrator\<close>

lemma bad_format_path:
  assumes "get_cached_result w st addr = None" and "\<not> is_valid_email_format addr"
  shows "verify_email w st addr =
     (Inr ((new_result w addr)\<lparr> error_message := Some msg_bad_format \<rparr>),
      cache_result w st ((new_result w addr)\<lparr> error_message := Some msg_bad_format \<rparr>),
      [CacheRead addr,
       CacheWrite (row_of_result ((new_result w addr)\<lparr> error_message := Some msg_bad_format \<rparr>))])"
  using assms by (simp add: verify_email_def Let_def)

lemma no_mx_path:
  assumes "get_cached_result w st addr = None" and "is_valid_email_format addr"
    and "py_index (split_on CHR ''@'' addr) 1 = Inr d"
    and "get_mx_records w (lower d) = []"
  shows "verify_email w st addr =
     (Inr ((new_result w addr)\<lparr> server_response := msg_no_mx_response,
              error_message := Some msg_no_mx \<rparr>),
      cache_result w st ((new_result w addr)\<lparr> server_response := msg_no_mx_response,
              error_message := Some msg_no_mx \<rparr>),
      [CacheRead addr, DnsQuery (lower d),
       CacheWrite (row_of_result ((new_result w addr)\<lparr> server_response := msg_no_mx_response,
              error_message := Some msg_no_mx \<rparr>))])"
  using assms by (simp add: verify_email_def Let_def)

lemma probe_path:
  assumes "get_cached_result w st addr = None" and "is_valid_email_format addr"
    and "py_index (split_on CHR ''@'' addr) 1 = Inr d"
    and "get_mx_records w (lower d) = mx # others"
    and "smtp_verify w st addr mx = (outcome, st', t)"
    and "result =
      (case outcome of
         Inr (valid, code, response) \<Rightarrow>
           (new_result w addr)\<lparr> is_valid := valid, status_code := Some code,
              server_response := response, mx_records := get_mx_records w (lower d) \<rparr>
       | Inl e \<Rightarrow>
           (new_result w addr)\<lparr> mx_records := get_mx_records w (lower d), error_message := Some (exn_str e) \<rparr>)"
  shows "verify_email w st addr =
     (Inr result, cache_result w st' result,
      [CacheRead addr, DnsQuery (lower d)] @ t @ [CacheWrite (row_of_result result)])"
  using assms by (simp add: verify_email_def Let_def)

subsection \<open>Negative outcomes without a probe\<close>

lemma cache_result_stores:
  assumes "\<not> write_fault w" and "email r = addr"
  shows "filter (\<lambda>row. col_email row = addr) (table (cache_result w st r)) = [row_of_result r]"
proof -
  have k: "col_email (row_of_result r) = addr" using assms(2) by (simp add: row_of_result_def)
  show ?thesis
    using assms(1) insert_or_replace_same_key [of "row_of_result r" "table st"]
    by (simp add: cache_result_def k)
qed

text \<open>
  C3, as stated, fails on the text of the message: for the malformed input
  \<open>not-an-address\<close> and an empty store, the outcome's \<open>error_message\<close> is the source's
  own literal, not \<open>invalid email format\<close>.
\<close>

theorem verify_email_bad_format_counterexample:
  "\<not> (\<exists>r. fst (verify_email (example_world stalling_peer) example_verifier ''not-an-address'')
          = Inr r \<and> error_message r = Some ''invalid email format'')"
proof -
  have c: "get_cached_result (example_world stalling_peer) example_verifier ''not-an-address'' = None"
    by (simp add: get_cached_result_def example_verifier_def EmailVerifier_init_def)
  have f: "\<not> is_valid_email_format ''not-an-address''"
    by (simp add: is_valid_email_format_def pattern_def char_class_defs)
  have m: "msg_bad_format \<noteq> ''invalid email format''"
    by (simp add: msg_bad_format_def)
  show ?thesis
    unfolding bad_format_path [OF c f] using m by simp
qed

text \<open>
  C3, amended. For every input that fails the format check and has no unexpired cache
  entry, \<open>verify_email\<close> returns, without raising, an outcome for that input with
  \<open>is_valid = False\<close> and \<open>error_message\<close> equal to the literal \<open>msg_bad_format\<close> of the
  source (Chinese for "invalid email format"). Its events are the cache read and one
  cache write of that outcome, so there is no DNS query and no connection, and the pool
  of senders is untouched; when the store accepts the write, the one row it holds for the
  input afterwards is that outcome.
\<close>

theorem verify_email_rejects_bad_format:
  assumes "\<not> is_valid_email_format addr" and "get_cached_result w st addr = None"
  shows "\<exists>r. verify_email w st addr =
        (Inr r, cache_result w st r, [CacheRead addr, CacheWrite (row_of_result r)]) \<and>
      email r = addr \<and> \<not> is_valid r \<and> error_message r = Some msg_bad_format \<and>
      current_sender (cache_result w st r) = current_sender st \<and>
      (\<not> write_fault w \<longrightarrow>
         filter (\<lambda>row. col_email row = addr) (table (cache_result w st r)) = [row_of_result r])"
proof -
  let ?r = "(new_result w addr)\<lparr> error_message := Some msg_bad_format \<rparr>"
  have e: "email ?r = addr" by (simp add: new_result_def)
  have "verify_email w st addr =
        (Inr ?r, cache_result w st ?r, [CacheRead addr, CacheWrite (row_of_result ?r)])"
    by (rule bad_format_path [OF assms(2,1)])
  moreover have "\<not> is_valid ?r \<and> error_message ?r = Some msg_bad_format"
    by (simp add: new_result_def)
  moreover have "current_sender (cache_result w st ?r) = current_sender st"
    by (simp add: cache_result_def)
  moreover have "\<not> write_fault w \<longrightarrow>
         filter (\<lambda>row. col_email row = addr) (table (cache_result w st ?r)) = [row_of_result ?r]"
    using cache_result_stores [OF _ e] by blast
  ultimately show ?thesis using e by blast
qed

theorem verify_email_rejects_bad_format_witness:
  "\<exists>r. verify_email (example_world stalling_peer) example_verifier ''not-an-address'' =
        (Inr r, cache_result (example_world stalling_peer) example_verifier r,
         [CacheRead ''not-an-address'', CacheWrite (row_of_result r)]) \<and>
      \<not> is_valid r \<and> error_message r = Some msg_bad_format \<and>
      table (cache_result (example_world stalling_peer) example_verifier r) = [row_of_result r]"
proof -
  let ?w = "example_world stalling_peer"
  have c: "get_cached_result ?w example_verifier ''not-an-address'' = None"
    by (simp add: get_cached_result_def example_verifier_def EmailVerifier_init_def)
  have f: "\<not> is_valid_email_format ''not-an-address''"
    by (simp add: is_valid_email_format_def pattern_def char_class_defs)
  have wf: "\<not> write_fault ?w" by (simp add: example_world_def)
  have t: "table (cache_result ?w example_verifier r) = [row_of_result r]" for r
    using wf by (simp add: cache_result_def insert_or_replace_def example_verifier_def
        EmailVerifier_init_def)
  show ?thesis
    using verify_email_rejects_bad_format [OF f c] t by blast
qed

text \<open>
  C5, as stated, fails on the text of the message: for \<open>user@example.org\<close>, whose domain
  has no MX record in the example world, the outcome's \<open>error_message\<close> is the source's
  own literal, not \<open>no MX records\<close>.
\<close>

theorem verify_email_no_mx_counterexample:
  "\<not> (\<exists>r. fst (verify_email (example_world stalling_peer) example_verifier ''user@example.org'')
          = Inr r \<and> error_message r = Some ''no MX records'')"
proof -
  let ?w = "example_world stalling_peer"
  have c: "get_cached_result ?w example_verifier ''user@example.org'' = None"
    by (simp add: get_cached_result_def example_verifier_def EmailVerifier_init_def)
  have f: "is_valid_email_format ''user@example.org''"
    by (simp add: is_valid_email_format_def pattern_def char_class_defs)
  have d: "py_index (split_on CHR ''@'' ''user@example.org'') 1 = Inr ''example.org''"
    by (simp add: py_index_def)
  have l: "lower ''example.org'' = ''example.org''"
    by (simp add: lower_def lower_char_def in_range_def)
  have x: "get_mx_records ?w (lower ''example.org'') = []"
    unfolding l by (simp add: get_mx_records_def example_world_def example_dns_def)
  have m: "msg_no_mx \<noteq> ''no MX records''"
    by (simp add: msg_no_mx_def)
  show ?thesis
    unfolding no_mx_path [OF c f d x] using m by simp
qed

text \<open>
  C5, amended. For every well-formed address with no unexpired cache entry whose domain
  portion (the text after the \<open>@\<close>, lower-cased) resolves to no MX records,
  \<open>verify_email\<close> returns, without raising, an outcome for that address with
  \<open>is_valid = False\<close>, \<open>mx_records = []\<close> and \<open>error_message\<close> equal to the literal
  \<open>msg_no_mx\<close> of the source (Chinese for "the domain has no MX records"). Its events are
  the cache read, the DNS query and one cache write of that outcome, so no SMTP
  connection is opened and the pool of senders is untouched; when the store accepts the
  write, the one row it holds for the address afterwards is that outcome.
\<close>

theorem verify_email_without_mx:
  assumes "is_valid_email_format addr" and "get_cached_result w st addr = None"
    and "py_index (split_on CHR ''@'' addr) 1 = Inr d"
    and "get_mx_records w (lower d) = []"
  shows "\<exists>r. verify_email w st addr =
        (Inr r, cache_result w st r,
         [CacheRead addr, DnsQuery (lower d), CacheWrite (row_of_result r)]) \<and>
      email r = addr \<and> \<not> is_valid r \<and> mx_records r = [] \<and>
      error_message r = Some msg_no_mx \<and>
      current_sender (cache_result w st r) = current_sender st \<and>
      (\<not> write_fault w \<longrightarrow>
         filter (\<lambda>row. col_email row = addr) (table (cache_result w st r)) = [row_of_result r])"
proof -
  let ?r = "(new_result w addr)\<lparr> server_response := msg_no_mx_response,
              error_message := Some msg_no_mx \<rparr>"
  have e: "email ?r = addr" by (simp add: new_result_def)
  have "verify_email w st addr =
        (Inr ?r, cache_result w st ?r,
         [CacheRead addr, DnsQuery (lower d), CacheWrite (row_of_result ?r)])"
    by (rule no_mx_path [OF assms(2,1,3,4)])
  moreover have "\<not> is_valid ?r \<and> mx_records ?r = [] \<and> error_message ?r = Some msg_no_mx"
    by (simp add: new_result_def)
  moreover have "current_sender (cache_result w st ?r) = current_sender st"
    by (simp add: cache_result_def)
  moreover have "\<not> write_fault w \<longrightarrow>
         filter (\<lambda>row. col_email row = addr) (table (cache_result w st ?r)) = [row_of_result ?r]"
    using cache_result_stores [OF _ e] by blast
  ultimately show ?thesis using e by blast
qed

theorem verify_email_without_mx_witness:
  "\<exists>r. verify_email (example_world stalling_peer) example_verifier ''user@example.org'' =
        (Inr r, cache_result (example_world stalling_peer) example_verifier r,
         [CacheRead ''user@example.org'', DnsQuery ''example.org'',
          CacheWrite (row_of_result r)]) \<and>
      \<not> is_valid r \<and> mx_records r = [] \<and> error_message r = Some msg_no_mx"
proof -
  let ?w = "example_world stalling_peer"
  have c: "get_cached_result ?w example_verifier ''user@example.org'' = None"
    by (simp add: get_cached_result_def example_verifier_def EmailVerifier_init_def)
  have f: "is_valid_email_format ''user@example.org''"
    by (simp add: is_valid_email_format_def pattern_def char_class_defs)
  have d: "py_index (split_on CHR ''@'' ''user@example.org'') 1 = Inr ''example.org''"
    by (simp add: py_index_def)
  have l: "lower ''example.org'' = ''example.org''"
    by (simp add: lower_def lower_char_def in_range_def)
  have x: "get_mx_records ?w (lower ''example.org'') = []"
    unfolding l by (simp add: get_mx_records_def example_world_def example_dns_def)
  show ?thesis
    using verify_email_without_mx [OF f c d x] unfolding l by blast
qed

subsection \<open>Every miss writes once\<close>

lemma smtp_verify_keeps_duration:
  assumes "smtp_verify w st addr mx_host = (r, st', t)"
  shows "cache_duration st' = cache_duration st"
  using assms
  by (auto simp: smtp_verify_def get_next_sender_def split: sum.splits prod.splits)

lemma miss_path:
  assumes "get_cached_result w st addr = None"
  shows "\<exists>r st1 t0. verify_email w st addr =
        (Inr r, cache_result w st1 r, [CacheRead addr] @ t0 @ [CacheWrite (row_of_result r)]) \<and>
      table st1 = table st \<and> cache_duration st1 = cache_duration st \<and>
      email r = addr \<and> filter is_cache_write t0 = []"
proof (cases "is_valid_email_format addr")
  case False
  let ?r = "(new_result w addr)\<lparr> error_message := Some msg_bad_format \<rparr>"
  have "verify_email w st addr =
      (Inr ?r, cache_result w st ?r, [CacheRead addr] @ [] @ [CacheWrite (row_of_result ?r)])"
    using bad_format_path [OF assms False] by simp
  moreover have "email ?r = addr" by (simp add: new_result_def)
  ultimately show ?thesis by fastforce
next
  case True
  obtain d where d: "py_index (split_on CHR ''@'' addr) 1 = Inr d"
    using valid_format_has_domain [OF True] by blast
  show ?thesis
  proof (cases "get_mx_records w (lower d)")
    case Nil
    let ?r = "(new_result w addr)\<lparr> server_response := msg_no_mx_response,
              error_message := Some msg_no_mx \<rparr>"
    have "verify_email w st addr =
        (Inr ?r, cache_result w st ?r,
         [CacheRead addr] @ [DnsQuery (lower d)] @ [CacheWrite (row_of_result ?r)])"
      using no_mx_path [OF assms True d Nil] by simp
    moreover have "email ?r = addr" by (simp add: new_result_def)
    moreover have "filter is_cache_write [DnsQuery (lower d)] = []" by simp
    ultimately show ?thesis by blast
  next
    case (Cons mx others)
    obtain outcome st' t where s: "smtp_verify w st addr mx = (outcome, st', t)"
      by (cases "smtp_verify w st addr mx")
    let ?r = "(case outcome of
         Inr (valid, code, response) \<Rightarrow>
           (new_result w addr)\<lparr> is_valid := valid, status_code := Some code,
              server_response := response, mx_records := get_mx_records w (lower d) \<rparr>
       | Inl e \<Rightarrow>
           (new_result w addr)\<lparr> mx_records := get_mx_records w (lower d),
              error_message := Some (exn_str e) \<rparr>)"
    have eff: "table st' = table st" "list_all network_event t"
      using smtp_verify_effects [OF s] by simp_all
    have "verify_email w st addr =
        (Inr ?r, cache_result w st' ?r,
         [CacheRead addr] @ (DnsQuery (lower d) # t) @ [CacheWrite (row_of_result ?r)])"
      using probe_path [OF assms True d Cons s refl] by simp
    moreover have "email ?r = addr"
      by (cases outcome) (auto simp: new_result_def split: prod.splits)
    moreover have "filter is_cache_write (DnsQuery (lower d) # t) = []"
      using network_event_not_write [OF eff(2)] by simp
    ultimately show ?thesis using eff(1) smtp_verify_keeps_duration [OF s] by blast
  qed
qed

lemma find_of_filter:
  assumes "filter P xs = [x]"
  shows "find P xs = Some x"
  using assms
proof (induction xs)
  case Nil
  then show ?case by simp
next
  case (Cons a xs)
  show ?case
  proof (cases "P a")
    case True
    then have "a = x" using Cons.prems by simp
    then show ?thesis using True by simp
  next
    case False
    then show ?thesis using Cons by simp
  qed
qed

lemma lookup_by_key:
  assumes "\<not> cutoff_overflows w st" and "\<not> read_fault w"
    and "distinct (map col_email (table st))"
  shows "get_cached_result w st addr =
      (case find (\<lambda>row. col_email row = addr) (table st) of
         None \<Rightarrow> None
       | Some row \<Rightarrow>
           if now_lookup w - col_timestamp row < cache_duration st
           then Some (result_of_row row) else None)"
proof -
  have iff: "(col_timestamp row > now_lookup w - cache_duration st) =
      (now_lookup w - col_timestamp row < cache_duration st)" for row
    by auto
  show ?thesis
    using assms(1,2)
    by (simp add: get_cached_result_def Let_def find_key_and [OF assms(3)] iff
        split: option.splits)
qed

lemma cache_result_duration: "cache_duration (cache_result w st r) = cache_duration st"
  by (simp add: cache_result_def)

text \<open>
  C9. A call of \<open>verify_email\<close> that is not served from the cache returns an outcome for
  the address as submitted, and among its events there is exactly one cache write; this
  covers the outcomes for a failed format check and for missing MX records. The row
  written holds the fields of the outcome returned, column by column, under the address
  as its key, and read back it is that outcome with \<open>cached = True\<close>. When the store
  accepts the write, the table afterwards is the old one with the rows of that address
  deleted and the new row added: it holds exactly one row for the address, the rows of
  other addresses are unchanged, and a table with one row per address stays so; a later
  lookup of the address in that table, by a readable store whose cutoff is
  representable, then gives the outcome just returned, marked as cached, as long as it
  is younger than the cache duration, and nothing afterwards.
\<close>

theorem verify_email_writes_once:
  assumes "get_cached_result w st addr = None"
  shows "\<exists>r st' t. verify_email w st addr = (Inr r, st', t) \<and> email r = addr \<and>
      filter is_cache_write t = [CacheWrite (row_of_result r)] \<and>
      row_of_result r =
        \<lparr> col_email = addr, col_is_valid = is_valid r, col_status_code = status_code r,
          col_server_response = server_response r, col_mx_records = mx_records r,
          col_verification_time = verification_time r, col_timestamp = timestamp r,
          col_error_message = error_message r \<rparr> \<and>
      result_of_row (row_of_result r) = r\<lparr> cached := True \<rparr> \<and>
      cache_duration st' = cache_duration st \<and>
      (\<not> write_fault w \<longrightarrow>
         table st' = insert_or_replace (row_of_result r) (table st) \<and>
         filter (\<lambda>row. col_email row = addr) (table st') = [row_of_result r] \<and>
         filter (\<lambda>row. col_email row \<noteq> addr) (table st') =
           filter (\<lambda>row. col_email row \<noteq> addr) (table st) \<and>
         (distinct (map col_email (table st)) \<longrightarrow>
            distinct (map col_email (table st')) \<and>
            (\<forall>w'. \<not> cutoff_overflows w' st' \<and> \<not> read_fault w' \<longrightarrow>
               get_cached_result w' st' addr =
                 (if now_lookup w' - timestamp r < cache_duration st
                  then Some (r\<lparr> cached := True \<rparr>) else None))))"
proof -
  obtain r st1 t0 where v: "verify_email w st addr =
        (Inr r, cache_result w st1 r, [CacheRead addr] @ t0 @ [CacheWrite (row_of_result r)])"
    and st1: "table st1 = table st" and cd: "cache_duration st1 = cache_duration st"
    and e: "email r = addr"
    and t0: "filter is_cache_write t0 = []"
    using miss_path [OF assms] by blast
  let ?st' = "cache_result w st1 r"
  let ?t = "[CacheRead addr] @ t0 @ [CacheWrite (row_of_result r)]"
  have k: "col_email (row_of_result r) = addr" using e by (simp add: row_of_result_def)
  have cols: "row_of_result r =
        \<lparr> col_email = addr, col_is_valid = is_valid r, col_status_code = status_code r,
          col_server_response = server_response r, col_mx_records = mx_records r,
          col_verification_time = verification_time r, col_timestamp = timestamp r,
          col_error_message = error_message r \<rparr>"
    using e by (simp add: row_of_result_def)
  have ts: "col_timestamp (row_of_result r) = timestamp r" by (simp add: row_of_result_def)
  have trip: "result_of_row (row_of_result r) = r\<lparr> cached := True \<rparr>"
    by (rule row_round_trip)
  have dur: "cache_duration ?st' = cache_duration st"
    using cd by (simp only: cache_result_duration)
  have w1: "filter is_cache_write ?t = [CacheWrite (row_of_result r)]"
    using t0 by simp
  have stored: "\<not> write_fault w \<longrightarrow>
         table ?st' = insert_or_replace (row_of_result r) (table st) \<and>
         filter (\<lambda>row. col_email row = addr) (table ?st') = [row_of_result r] \<and>
         filter (\<lambda>row. col_email row \<noteq> addr) (table ?st') =
           filter (\<lambda>row. col_email row \<noteq> addr) (table st) \<and>
         (distinct (map col_email (table st)) \<longrightarrow>
            distinct (map col_email (table ?st')) \<and>
            (\<forall>w'. \<not> cutoff_overflows w' ?st' \<and> \<not> read_fault w' \<longrightarrow>
               get_cached_result w' ?st' addr =
                 (if now_lookup w' - timestamp r < cache_duration st
                  then Some (r\<lparr> cached := True \<rparr>) else None)))"
  proof (rule impI)
    assume nf: "\<not> write_fault w"
    have tab: "table ?st' = insert_or_replace (row_of_result r) (table st)"
      using nf st1 by (simp add: cache_result_def)
    have same: "filter (\<lambda>row. col_email row = addr) (table ?st') = [row_of_result r]"
      using insert_or_replace_same_key [of "row_of_result r" "table st"] unfolding k tab .
    have other: "filter (\<lambda>row. col_email row \<noteq> addr) (table ?st') =
        filter (\<lambda>row. col_email row \<noteq> addr) (table st)"
      using insert_or_replace_other_keys [of "row_of_result r" "table st"] unfolding k tab .
    have later: "distinct (map col_email (table ?st')) \<and>
            (\<forall>w'. \<not> cutoff_overflows w' ?st' \<and> \<not> read_fault w' \<longrightarrow>
               get_cached_result w' ?st' addr =
                 (if now_lookup w' - timestamp r < cache_duration st
                  then Some (r\<lparr> cached := True \<rparr>) else None))"
      if d: "distinct (map col_email (table st))"
    proof -
      have d': "distinct (map col_email (table ?st'))"
        unfolding tab using d by (rule insert_or_replace_distinct)
      have f: "find (\<lambda>row. col_email row = addr) (table ?st') = Some (row_of_result r)"
        using same by (rule find_of_filter)
      have "get_cached_result w' ?st' addr =
                 (if now_lookup w' - timestamp r < cache_duration st
                  then Some (r\<lparr> cached := True \<rparr>) else None)"
        if "\<not> cutoff_overflows w' ?st'" and "\<not> read_fault w'" for w'
        unfolding lookup_by_key [OF that d'] f option.case ts trip dur ..
      then show ?thesis using d' by blast
    qed
    show "table ?st' = insert_or_replace (row_of_result r) (table st) \<and>
         filter (\<lambda>row. col_email row = addr) (table ?st') = [row_of_result r] \<and>
         filter (\<lambda>row. col_email row \<noteq> addr) (table ?st') =
           filter (\<lambda>row. col_email row \<noteq> addr) (table st) \<and>
         (distinct (map col_email (table st)) \<longrightarrow>
            distinct (map col_email (table ?st')) \<and>
            (\<forall>w'. \<not> cutoff_overflows w' ?st' \<and> \<not> read_fault w' \<longrightarrow>
               get_cached_result w' ?st' addr =
                 (if now_lookup w' - timestamp r < cache_duration st
                  then Some (r\<lparr> cached := True \<rparr>) else None)))"
      using tab same other later by blast
  qed
  have "verify_email w st addr = (Inr r, ?st', ?t) \<and> email r = addr \<and>
      filter is_cache_write ?t = [CacheWrite (row_of_result r)] \<and>
      row_of_result r =
        \<lparr> col_email = addr, col_is_valid = is_valid r, col_status_code = status_code r,
          col_server_response = server_response r, col_mx_records = mx_records r,
          col_verification_time = verification_time r, col_timestamp = timestamp r,
          col_error_message = error_message r \<rparr> \<and>
      result_of_row (row_of_result r) = r\<lparr> cached := True \<rparr> \<and>
      cache_duration ?st' = cache_duration st \<and>
      (\<not> write_fault w \<longrightarrow>
         table ?st' = insert_or_replace (row_of_result r) (table st) \<and>
         filter (\<lambda>row. col_email row = addr) (table ?st') = [row_of_result r] \<and>
         filter (\<lambda>row. col_email row \<noteq> addr) (table ?st') =
           filter (\<lambda>row. col_email row \<noteq> addr) (table st) \<and>
         (distinct (map col_email (table st)) \<longrightarrow>
            distinct (map col_email (table ?st')) \<and>
            (\<forall>w'. \<not> cutoff_overflows w' ?st' \<and> \<not> read_fault w' \<longrightarrow>
               get_cached_result w' ?st' addr =
                 (if now_lookup w' - timestamp r < cache_duration st
                  then Some (r\<lparr> cached := True \<rparr>) else None))))"
    by (intro conjI) (rule v e w1 cols trip dur stored)+
  then show ?thesis by (intro exI)
qed

theorem verify_email_writes_once_witness:
  "\<exists>r st' t. verify_email ((example_world stalling_peer)\<lparr> now_lookup := 17733270 * hour \<rparr>)
        (example_verifier\<lparr> table := [example_row] \<rparr>) ''user@example.com'' = (Inr r, st', t) \<and>
      email r = ''user@example.com'' \<and>
      filter is_cache_write t = [CacheWrite (row_of_result r)] \<and>
      col_email (row_of_result r) = ''user@example.com'' \<and>
      col_is_valid (row_of_result r) = is_valid r \<and>
      col_status_code (row_of_result r) = status_code r \<and>
      table st' = [row_of_result r] \<and>
      get_cached_result (example_world stalling_peer) st' ''user@example.com'' =
        (if now_lookup (example_world stalling_peer) - timestamp r < 24 * hour
         then Some (r\<lparr> cached := True \<rparr>) else None)"
proof -
  let ?w = "(example_world stalling_peer)\<lparr> now_lookup := 17733270 * hour \<rparr>"
  let ?st = "example_verifier\<lparr> table := [example_row] \<rparr>"
  let ?a = "''user@example.com''"
  have c: "get_cached_result ?w ?st ?a = None"
    by (simp add: get_cached_result_def cutoff_overflows_def datetime_min_def datetime_max_def
        example_world_def example_row_def example_verifier_def EmailVerifier_init_def hour_def)
  have wf: "\<not> write_fault ?w" by (simp add: example_world_def)
  have d: "distinct (map col_email (table ?st))" by simp
  have cd: "cache_duration ?st = 24 * hour"
    by (simp add: example_verifier_def EmailVerifier_init_def)
  obtain r st' t where v: "verify_email ?w ?st ?a = (Inr r, st', t)"
      "email r = ?a"
      "filter is_cache_write t = [CacheWrite (row_of_result r)]"
      "row_of_result r =
        \<lparr> col_email = ?a, col_is_valid = is_valid r, col_status_code = status_code r,
          col_server_response = server_response r, col_mx_records = mx_records r,
          col_verification_time = verification_time r, col_timestamp = timestamp r,
          col_error_message = error_message r \<rparr>"
      "cache_duration st' = cache_duration ?st"
      "\<not> write_fault ?w \<longrightarrow>
         table st' = insert_or_replace (row_of_result r) (table ?st) \<and>
         filter (\<lambda>row. col_email row = ?a) (table st') = [row_of_result r] \<and>
         filter (\<lambda>row. col_email row \<noteq> ?a) (table st') =
           filter (\<lambda>row. col_email row \<noteq> ?a) (table ?st) \<and>
         (distinct (map col_email (table ?st)) \<longrightarrow>
            distinct (map col_email (table st')) \<and>
            (\<forall>w'. \<not> cutoff_overflows w' st' \<and> \<not> read_fault w' \<longrightarrow>
               get_cached_result w' st' ?a =
                 (if now_lookup w' - timestamp r < cache_duration ?st
                  then Some (r\<lparr> cached := True \<rparr>) else None)))"
    using verify_email_writes_once [OF c] by blast
  have tab: "table st' = insert_or_replace (row_of_result r) (table ?st)"
    and one: "filter (\<lambda>row. col_email row = ?a) (table st') = [row_of_result r]"
    and rb: "\<forall>w'. \<not> cutoff_overflows w' st' \<and> \<not> read_fault w' \<longrightarrow>
               get_cached_result w' st' ?a =
                 (if now_lookup w' - timestamp r < cache_duration ?st
                  then Some (r\<lparr> cached := True \<rparr>) else None)"
    using v(6) wf d by blast+
  have "col_email (row_of_result r) = col_email example_row"
    using v(2) by (simp add: row_of_result_def example_row_def)
  then have t1: "table st' = [row_of_result r]"
    using tab by (simp add: insert_or_replace_def)
  have cols: "col_email (row_of_result r) = ?a" "col_is_valid (row_of_result r) = is_valid r"
      "col_status_code (row_of_result r) = status_code r"
    unfolding v(4) by simp_all
  have dur: "cache_duration st' = 24 * hour" using v(5) cd by simp
  have ov: "\<not> cutoff_overflows (example_world stalling_peer) st'"
    unfolding cutoff_overflows_def dur
    by (simp add: datetime_min_def datetime_max_def example_world_def hour_def)
  have rf: "\<not> read_fault (example_world stalling_peer)" by (simp add: example_world_def)
  have again: "get_cached_result (example_world stalling_peer) st' ?a =
        (if now_lookup (example_world stalling_peer) - timestamp r < 24 * hour
         then Some (r\<lparr> cached := True \<rparr>) else None)"
    using rb ov rf unfolding cd by blast
  show ?thesis using v(1,2,3) cols t1 again by blast
qed

subsection \<open>Storage faults\<close>












end
